theory Spec2Isabelle
  imports Complex_Main "HOL-Library.List_Lexorder"
begin

section \<open>JavaScript strings and arrays\<close>

text \<open>
  A JavaScript string is a sequence of UTF-16 code units; \<open>length\<close>, \<open>charAt\<close>,
  \<open>===\<close>, the relational operators and the regular expressions of the sources (none has
  the \<open>u\<close> flag) all work on code units. A string is therefore a list of code units,
  each an integer from \<open>0\<close> to \<open>0xFFFF\<close>. With the list order of HOL-Library.List_Lexorder,
  \<open><\<close> on such lists is the lexicographic order on code units, a proper prefix being
  smaller: the order JavaScript uses to compare two strings.
\<close>

type_synonym jsstring = "int list"

text \<open>An ASCII literal of the sources, as code units.\<close>

definition js :: "string \<Rightarrow> jsstring" where
  "js s = map of_char s"

text \<open>
  The assignment \<open>a[i] = v\<close> on an array: it overwrites inside the array and extends the
  array by one element at \<open>i = a.length\<close>. (Beyond the length JavaScript would leave
  holes; the loops below count upwards from the current length and never do that.)
\<close>

definition arraySet :: "'a list \<Rightarrow> nat \<Rightarrow> 'a \<Rightarrow> 'a list" where
  "arraySet a i v = (if i < length a then a[i := v] else a @ [v])"

section \<open>Marriage identifiers (FamilyTreeGL.generateMarriageId)\<close>

text \<open>
  \<^verbatim>\<open>generateMarriageId(s1, s2) { const ids = [s1, s2].sort(); return `M-${ids[0]}_${ids[1]}`; }\<close>
  \<open>Array.prototype.sort\<close> without a comparator orders strings by code units and is
  stable, as is the insertion sort \<^const>\<open>sort\<close> of HOL.
\<close>

definition generateMarriageId :: "jsstring \<Rightarrow> jsstring \<Rightarrow> jsstring" where
  "generateMarriageId s1 s2 =
     (let ids = sort [s1, s2] in js ''M-'' @ ids ! 0 @ js ''_'' @ ids ! 1)"

section \<open>Edit distance (CognitiveSearch.levenshteinDistance, getTextSimilarity)\<close>

text \<open>
  The three loops of \<open>levenshteinDistance\<close>, on the matrix as an array of rows.
  \<open>initRows\<close> is \<^verbatim>\<open>for (let i = 0; i <= str2.length; i++) matrix[i] = [i]\<close>,
  \<open>initCols\<close> is \<^verbatim>\<open>for (let j = 0; j <= str1.length; j++) matrix[0][j] = j\<close>,
  \<open>fillRow\<close> is the inner and \<open>fillRows\<close> the outer loop of the main nest.
\<close>

function initRows :: "nat \<Rightarrow> nat \<Rightarrow> nat list list \<Rightarrow> nat list list" where
  "initRows n i matrix =
     (if i \<le> n then initRows n (i + 1) (arraySet matrix i [i]) else matrix)"
  by pat_completeness auto
termination
  by (relation "measure (\<lambda>(n, i, matrix). n + 1 - i)") auto

function initCols :: "nat \<Rightarrow> nat \<Rightarrow> nat list list \<Rightarrow> nat list list" where
  "initCols n j matrix =
     (if j \<le> n
      then initCols n (j + 1) (arraySet matrix 0 (arraySet (matrix ! 0) j j))
      else matrix)"
  by pat_completeness auto
termination
  by (relation "measure (\<lambda>(n, j, matrix). n + 1 - j)") auto

definition cell :: "jsstring \<Rightarrow> jsstring \<Rightarrow> nat list list \<Rightarrow> nat \<Rightarrow> nat \<Rightarrow> nat" where
  "cell str1 str2 matrix i j =
     (if str2 ! (i - 1) = str1 ! (j - 1)
      then matrix ! (i - 1) ! (j - 1)
      else min (matrix ! (i - 1) ! (j - 1) + 1)
             (min (matrix ! i ! (j - 1) + 1) (matrix ! (i - 1) ! j + 1)))"

function fillRow :: "jsstring \<Rightarrow> jsstring \<Rightarrow> nat \<Rightarrow> nat \<Rightarrow> nat list list \<Rightarrow> nat list list" where
  "fillRow str1 str2 i j matrix =
     (if j \<le> length str1
      then fillRow str1 str2 i (j + 1)
             (arraySet matrix i (arraySet (matrix ! i) j (cell str1 str2 matrix i j)))
      else matrix)"
  by pat_completeness auto
termination
  by (relation "measure (\<lambda>(str1, str2, i, j, matrix). length str1 + 1 - j)") auto

function fillRows :: "jsstring \<Rightarrow> jsstring \<Rightarrow> nat \<Rightarrow> nat list list \<Rightarrow> nat list list" where
  "fillRows str1 str2 i matrix =
     (if i \<le> length str2
      then fillRows str1 str2 (i + 1) (fillRow str1 str2 i 1 matrix)
      else matrix)"
  by pat_completeness auto
termination
  by (relation "measure (\<lambda>(str1, str2, i, matrix). length str2 + 1 - i)") auto

definition levenshteinDistance :: "jsstring \<Rightarrow> jsstring \<Rightarrow> nat" where
  "levenshteinDistance str1 str2 =
     (let matrix = initRows (length str2) 0 [];
          matrix = initCols (length str1) 0 matrix;
          matrix = fillRows str1 str2 1 matrix
      in matrix ! length str2 ! length str1)"

text \<open>
  Scores are JavaScript numbers; they are modelled as exact rationals. Every score of
  this module is \<open>1 - d / m\<close> for natural numbers \<open>d \<le> m\<close> bounded by a string length,
  one of the constants 0.8, 0.85 and 0.9, or a product of the two; a similarity either
  equals a threshold (0.5, 0.6, 0.65) as a rational, and then also in double precision,
  or differs from it by at least \<open>1 / (20 * m)\<close>. A product such as \<open>altScore * 0.8\<close>
  can differ from the double the code computes in the last bit (3/5 here, where the
  code has 0.6000000000000001), which can change the order of equal scores in the
  sorted result; no statement below is about that order.
\<close>

definition getTextSimilarity :: "jsstring \<Rightarrow> jsstring \<Rightarrow> rat" where
  "getTextSimilarity str1 str2 =
     (if str1 = str2 then 1
      else if length str1 = 0 then 0
      else if length str2 = 0 then 0
      else (let distance = levenshteinDistance str1 str2;
                maxLength = max (length str1) (length str2)
            in 1 - of_nat distance / of_nat maxLength))"

text \<open>
  The unit-cost edit distance the specification refers to: the least number of
  insertions, deletions and substitutions, by the textbook recurrence on the heads of
  the two strings.
\<close>

fun lev :: "'a list \<Rightarrow> 'a list \<Rightarrow> nat" where
  "lev [] ys = length ys"
| "lev xs [] = length xs"
| "lev (x # xs) (y # ys) =
     min (lev xs ys + (if x = y then 0 else 1))
       (min (lev xs (y # ys) + 1) (lev (x # xs) ys + 1))"

text \<open>Proof vocabulary for the matrix: the distance between prefixes, and a finished row.\<close>

definition subst_cost :: "'a \<Rightarrow> 'a \<Rightarrow> nat" where
  "subst_cost x y = (if x = y then 0 else 1)"

definition dist_table :: "'a list \<Rightarrow> 'a list \<Rightarrow> nat \<Rightarrow> nat \<Rightarrow> nat" where
  "dist_table s1 s2 i j = lev (take j s1) (take i s2)"

definition full_row :: "'a list \<Rightarrow> 'a list \<Rightarrow> nat \<Rightarrow> nat list" where
  "full_row s1 s2 i = map (dist_table s1 s2 i) [0..<length s1 + 1]"

section \<open>Text primitives of CognitiveSearch\<close>

text \<open>
  The white space of \<open>String.prototype.trim\<close> and of the class \<open>\s\<close> (the same set of
  code units): tab, line feed, vertical tab, form feed, carriage return, space,
  no-break space, U+1680, U+2000 to U+200A, the line and paragraph separators, U+202F,
  U+205F, U+3000 and U+FEFF.
\<close>

definition isWhiteSpace :: "int \<Rightarrow> bool" where
  "isWhiteSpace c \<longleftrightarrow>
     (9 \<le> c \<and> c \<le> 13) \<or> c = 0x20 \<or> c = 0xA0 \<or> c = 0x1680 \<or> (0x2000 \<le> c \<and> c \<le> 0x200A) \<or>
     c = 0x2028 \<or> c = 0x2029 \<or> c = 0x202F \<or> c = 0x205F \<or> c = 0x3000 \<or> c = 0xFEFF"

definition trim :: "jsstring \<Rightarrow> jsstring" where
  "trim s = rev (dropWhile isWhiteSpace (rev (dropWhile isWhiteSpace s)))"

text \<open>
  \<open>toLowerCase\<close> is the host's Unicode case mapping. The model maps the ASCII capitals
  and leaves every other code unit as it is, which is what the host does on ASCII text,
  on white space and on the Arabic blocks (Arabic script has no case). It is not the
  host's mapping on other cased letters (U+00C9 stays, where the host gives U+00E9), so
  a statement below speaks for the code only where lowercasing touches ASCII or
  caseless text, or where it does not depend on what lowercasing does.
\<close>

definition toLowerCase :: "jsstring \<Rightarrow> jsstring" where
  "toLowerCase s = map (\<lambda>c. if 0x41 \<le> c \<and> c \<le> 0x5A then c + 0x20 else c) s"

text \<open>\<open>a.includes(b)\<close>: \<open>b\<close> occurs in \<open>a\<close> as a contiguous substring.\<close>

fun startsWith :: "jsstring \<Rightarrow> jsstring \<Rightarrow> bool" where
  "startsWith s [] = True"
| "startsWith [] (c # cs) = False"
| "startsWith (d # ds) (c # cs) = (d = c \<and> startsWith ds cs)"

fun includes_str :: "jsstring \<Rightarrow> jsstring \<Rightarrow> bool" where
  "includes_str [] sub = (sub = [])"
| "includes_str (c # cs) sub = (startsWith (c # cs) sub \<or> includes_str cs sub)"

text \<open>
  \<open>isArabic\<close> tests the text against
  \<^verbatim>\<open>/[\u0600-\u06FF\u0750-\u077F\u08A0-\u08FF\uFB50-\uFDFF\uFE70-\uFEFF]/\<close>.
\<close>

definition arabicUnit :: "int \<Rightarrow> bool" where
  "arabicUnit c \<longleftrightarrow>
     (0x600 \<le> c \<and> c \<le> 0x6FF) \<or> (0x750 \<le> c \<and> c \<le> 0x77F) \<or> (0x8A0 \<le> c \<and> c \<le> 0x8FF) \<or>
     (0xFB50 \<le> c \<and> c \<le> 0xFDFF) \<or> (0xFE70 \<le> c \<and> c \<le> 0xFEFF)"

definition isArabic :: "jsstring \<Rightarrow> bool" where
  "isArabic text = list_ex arabicUnit text"

text \<open>
  \<open>replace(/\s+/g, ' ')\<close>: every maximal run of white space becomes one space.
\<close>

function collapseSpaces :: "jsstring \<Rightarrow> jsstring" where
  "collapseSpaces [] = []"
| "collapseSpaces (c # cs) =
     (if isWhiteSpace c then 0x20 # collapseSpaces (dropWhile isWhiteSpace cs)
      else c # collapseSpaces cs)"
  by pat_completeness auto
termination
  by (relation "measure length") (auto simp: length_dropWhile_le less_Suc_eq_le)

text \<open>
  \<open>normalizeText\<close>, one definition per \<open>replace\<close> of the chain, in the order of the
  source: alef with hamza above, with hamza below and with madda to bare alef; alef
  maksura to yaa; taa marbouta to haa; waw and yaa with hamza to waw; the lone hamza
  removed; white space collapsed; the result trimmed.
\<close>

definition foldAlef :: "jsstring \<Rightarrow> jsstring" where
  "foldAlef s = map (\<lambda>c. if c = 0x623 \<or> c = 0x625 \<or> c = 0x622 then 0x627 else c) s"

definition foldYaa :: "jsstring \<Rightarrow> jsstring" where
  "foldYaa s = map (\<lambda>c. if c = 0x649 \<or> c = 0x64A then 0x64A else c) s"

definition foldTaa :: "jsstring \<Rightarrow> jsstring" where
  "foldTaa s = map (\<lambda>c. if c = 0x629 \<or> c = 0x647 then 0x647 else c) s"

definition foldWaw :: "jsstring \<Rightarrow> jsstring" where
  "foldWaw s = map (\<lambda>c. if c = 0x624 \<or> c = 0x626 then 0x648 else c) s"

definition dropHamza :: "jsstring \<Rightarrow> jsstring" where
  "dropHamza s = filter (\<lambda>c. c \<noteq> 0x621) s"

definition normalizeText :: "jsstring \<Rightarrow> jsstring" where
  "normalizeText text =
     trim (collapseSpaces (dropHamza (foldWaw (foldTaa (foldYaa (foldAlef text))))))"

text \<open>
  Proof vocabulary for \<open>normalizeText\<close>: a string is \<open>tidy\<close> when its only white
  space is the single space and no two white-space units are adjacent; a code unit is
  \<open>folded\<close> when no rule of the chain rewrites or removes it.
\<close>

fun tidy :: "jsstring \<Rightarrow> bool" where
  "tidy [] = True"
| "tidy [c] = (isWhiteSpace c \<longrightarrow> c = 0x20)"
| "tidy (c # d # cs) = ((isWhiteSpace c \<longrightarrow> c = 0x20 \<and> \<not> isWhiteSpace d) \<and> tidy (d # cs))"

definition folded :: "int \<Rightarrow> bool" where
  "folded c \<longleftrightarrow> c \<notin> {0x623, 0x625, 0x622, 0x649, 0x629, 0x624, 0x626, 0x621}"

section \<open>The dictionaries of CognitiveSearch\<close>

text \<open>
  \<open>arabicToEnglish\<close>, entry by entry in the order of the object literal (which is the
  order \<open>Object.entries\<close> walks it in); Arabic strings are written as their code units.
\<close>

definition arabicToEnglish :: "(jsstring \<times> jsstring list) list" where
  "arabicToEnglish = [
      ([0x623, 0x62D, 0x645, 0x62F], [js ''ahmed'', js ''ahmad'', js ''ahmet'']),
      ([0x645, 0x62D, 0x645, 0x62F], [js ''mohammed'', js ''muhammad'', js ''mohamed'', js ''mohammad'']),
      ([0x639, 0x644, 0x64A], [js ''ali'', js ''aly'']),
      ([0x62D, 0x633, 0x646], [js ''hassan'', js ''hasan'']),
      ([0x62D, 0x633, 0x64A, 0x646], [js ''hussein'', js ''husain'', js ''husayn'']),
      ([0x639, 0x628, 0x62F, 0x627, 0x644, 0x644, 0x647], [js ''abdullah'', js ''abdallah'', js ''abd allah'']),
      ([0x639, 0x628, 0x62F, 0x627, 0x644, 0x631, 0x62D, 0x645, 0x646], [js ''abdulrahman'', js ''abdurrahman'', js ''abd al rahman'']),
      ([0x639, 0x628, 0x62F, 0x627, 0x644, 0x639, 0x632, 0x64A, 0x632], [js ''abdulaziz'', js ''abdul aziz'', js ''abd al aziz'']),
      ([0x641, 0x627, 0x637, 0x645, 0x629], [js ''fatima'', js ''fatimah'', js ''fatma'']),
      ([0x639, 0x627, 0x626, 0x634, 0x629], [js ''aisha'', js ''aishah'', js ''ayesha'']),
      ([0x62E, 0x62F, 0x64A, 0x62C, 0x629], [js ''khadija'', js ''khadijah'', js ''khadiga'']),
      ([0x645, 0x631, 0x64A, 0x645], [js ''maryam'', js ''mary'', js ''mariam'']),
      ([0x632, 0x64A, 0x646, 0x628], [js ''zainab'', js ''zaynab'', js ''zeinab'']),
      ([0x633, 0x627, 0x631, 0x629], [js ''sara'', js ''sarah'']),
      ([0x646, 0x648, 0x631], [js ''noor'', js ''nur'', js ''nour'']),
      ([0x633, 0x644, 0x64A, 0x645, 0x627, 0x646], [js ''soliman'', js ''sulaiman'', js ''suleiman'']),
      ([0x62F, 0x627, 0x648, 0x62F], [js ''dawood'', js ''dawud'', js ''david'']),
      ([0x625, 0x628, 0x631, 0x627, 0x647, 0x64A, 0x645], [js ''ibrahim'', js ''ibraheem'', js ''abraham'']),
      ([0x625, 0x633, 0x645, 0x627, 0x639, 0x64A, 0x644], [js ''ismail'', js ''ismael'']),
      ([0x64A, 0x648, 0x633, 0x641], [js ''yusuf'', js ''yousef'', js ''joseph'']),
      ([0x639, 0x645, 0x631], [js ''omar'', js ''umar'', js ''omer'']),
      ([0x639, 0x62B, 0x645, 0x627, 0x646], [js ''othman'', js ''uthman'', js ''osman'']),
      ([0x623, 0x634, 0x631, 0x641], [js ''ashraf'', js ''ashraaf'', js ''ashraff'']),
      ([0x639, 0x628, 0x62F, 0x627, 0x644, 0x644, 0x637, 0x64A, 0x641], [js ''abdullatif'', js ''abdul latif'']),
      ([0x639, 0x628, 0x62F, 0x627, 0x644, 0x633, 0x644, 0x627, 0x645], [js ''abdulsalam'', js ''abdul salam'']),
      ([0x639, 0x628, 0x62F, 0x627, 0x644, 0x63A, 0x646, 0x64A], [js ''abdulghani'', js ''abdul ghani'']),
      ([0x639, 0x628, 0x62F, 0x627, 0x644, 0x648, 0x647, 0x627, 0x628], [js ''abdulwahab'', js ''abdul wahab'']),
      ([0x639, 0x628, 0x62F, 0x627, 0x644, 0x645, 0x646, 0x639, 0x645], [js ''abdulmunim'', js ''abdul munim'']),
      ([0x639, 0x628, 0x62F, 0x627, 0x644, 0x645, 0x62C, 0x64A, 0x62F], [js ''abdulmajid'', js ''abdul majid'']),
      ([0x639, 0x628, 0x62F, 0x627, 0x644, 0x641, 0x62A, 0x627, 0x62D], [js ''abdulfattah'', js ''abdul fattah'']),
      ([0x639, 0x628, 0x62F, 0x627, 0x644, 0x631, 0x632, 0x627, 0x642], [js ''abdulrazzaq'', js ''abdul razzaq'']),
      ([0x639, 0x628, 0x62F, 0x627, 0x644, 0x633, 0x62A, 0x627, 0x631], [js ''abdulsattar'', js ''abdul sattar'']),
      ([0x639, 0x628, 0x62F, 0x627, 0x644, 0x63A, 0x641, 0x627, 0x631], [js ''abdulghaffar'', js ''abdul ghaffar'']),
      ([0x639, 0x628, 0x62F, 0x627, 0x644, 0x631, 0x62D, 0x64A, 0x645], [js ''abdulrahim'', js ''abdul rahim'']),
      ([0x639, 0x628, 0x62F, 0x627, 0x644, 0x62E, 0x627, 0x644, 0x642], [js ''abdulkhaliq'', js ''abdul khaliq'']),
      ([0x639, 0x628, 0x62F, 0x627, 0x644, 0x648, 0x627, 0x62D, 0x62F], [js ''abdulwahid'', js ''abdul wahid'']),
      ([0x639, 0x628, 0x62F, 0x627, 0x644, 0x631, 0x624, 0x648, 0x641], [js ''abdulrauf'', js ''abdul rauf''])]"

text \<open>
  The constructor's reverse mapping: for every entry and every variant of it,
  \<^verbatim>\<open>if (!this.englishToArabic[english]) this.englishToArabic[english] = [];\<close>
  \<^verbatim>\<open>this.englishToArabic[english].push(arabic);\<close>
\<close>

fun pushVariants :: "jsstring \<Rightarrow> jsstring list \<Rightarrow> (jsstring \<rightharpoonup> jsstring list) \<Rightarrow> (jsstring \<rightharpoonup> jsstring list)" where
  "pushVariants arabic [] e2a = e2a"
| "pushVariants arabic (english # rest) e2a =
     pushVariants arabic rest
       (e2a(english \<mapsto> (case e2a english of None \<Rightarrow> [] | Some l \<Rightarrow> l) @ [arabic]))"

fun buildReverse :: "(jsstring \<times> jsstring list) list \<Rightarrow> (jsstring \<rightharpoonup> jsstring list) \<Rightarrow> (jsstring \<rightharpoonup> jsstring list)" where
  "buildReverse [] e2a = e2a"
| "buildReverse ((arabic, englishVariants) # rest) e2a =
     buildReverse rest (pushVariants arabic englishVariants e2a)"

definition englishToArabic :: "jsstring \<rightharpoonup> jsstring list" where
  "englishToArabic = buildReverse arabicToEnglish Map.empty"

text \<open>
  Both dictionaries are plain objects. A property read \<open>obj[key]\<close> finds the object's
  own properties and then the members of \<open>Object.prototype\<close>: functions and, for
  \<open>__proto__\<close>, the prototype object itself. Such a value is truthy and is not iterable,
  so a \<open>for ... of\<close> over it throws a TypeError.
\<close>

datatype error = TypeError

datatype 'v propval = Undefined | Own 'v | Inherited

definition objectPrototypeKeys :: "jsstring list" where
  "objectPrototypeKeys =
     [js ''constructor'', js ''__defineGetter__'', js ''__defineSetter__'',
      js ''hasOwnProperty'', js ''__lookupGetter__'', js ''__lookupSetter__'',
      js ''isPrototypeOf'', js ''propertyIsEnumerable'', js ''toString'', js ''valueOf'',
      js ''__proto__'', js ''toLocaleString'']"

definition getProp :: "(jsstring \<rightharpoonup> 'v) \<Rightarrow> jsstring \<Rightarrow> 'v propval" where
  "getProp obj key =
     (case obj key of
        Some v \<Rightarrow> Own v
      | None \<Rightarrow> if key \<in> set objectPrototypeKeys then Inherited else Undefined)"

section \<open>Rule-based transliteration (buildArabicCandidatesFromEnglish, transliterateToken)\<close>

text \<open>
  \<open>Array.from(new Set(xs))\<close>: the first occurrence of every element, in order.
\<close>

definition uniq :: "'a list \<Rightarrow> 'a list" where
  "uniq xs = rev (remdups (rev xs))"

text \<open>
  The expansion step of \<open>transliterateToken\<close>: the loop over \<open>options\<close> inside the loop
  over \<open>variants\<close>, each left by \<open>break\<close> once \<open>next\<close> holds more than 120 strings.
\<close>

fun expandInner :: "jsstring \<Rightarrow> jsstring list \<Rightarrow> jsstring list \<Rightarrow> jsstring list" where
  "expandInner base [] nxt = nxt"
| "expandInner base (opt # options) nxt =
     (let candidate = base @ opt; nxt = nxt @ [candidate]
      in if length nxt > 120 then nxt else expandInner base options nxt)"

fun expandVariants :: "jsstring list \<Rightarrow> jsstring list \<Rightarrow> jsstring list \<Rightarrow> jsstring list" where
  "expandVariants [] options nxt = nxt"
| "expandVariants (base # variants) options nxt =
     (let nxt = expandInner base options nxt
      in if length nxt > 120 then nxt else expandVariants variants options nxt)"

text \<open>
  The \<open>while (i < token.length)\<close> loop: a numeral of \<open>digitMap\<close> first, then a digraph
  (only when a second code unit is left), then the single letter, which stands for
  itself when \<open>singleMap\<close> has no entry for it.
\<close>

function tokenLoop :: "jsstring \<Rightarrow> (jsstring \<times> jsstring list) list \<Rightarrow> (jsstring \<times> jsstring list) list \<Rightarrow>
    (jsstring \<times> jsstring list) list \<Rightarrow> nat \<Rightarrow> jsstring list \<Rightarrow> jsstring list" where
  "tokenLoop token digitMap digraphMap singleMap i variants =
     (if i < length token then
        (let ch = [token ! i];
             pair = (if i + 1 < length token then Some [token ! i, token ! (i + 1)] else None)
         in case map_of digitMap ch of
              Some options \<Rightarrow>
                tokenLoop token digitMap digraphMap singleMap (i + 1) (expandVariants variants options [])
            | None \<Rightarrow>
                (case (case pair of None \<Rightarrow> None | Some p \<Rightarrow> map_of digraphMap p) of
                   Some options \<Rightarrow>
                     tokenLoop token digitMap digraphMap singleMap (i + 2) (expandVariants variants options [])
                 | None \<Rightarrow>
                     tokenLoop token digitMap digraphMap singleMap (i + 1)
                       (expandVariants variants
                          (case map_of singleMap ch of Some options \<Rightarrow> options | None \<Rightarrow> [ch]) [])))
      else variants)"
  by pat_completeness auto
termination
  by (relation "measure (\<lambda>(token, digitMap, digraphMap, singleMap, i, variants). length token - i)") auto

definition transliterateToken :: "jsstring \<Rightarrow> (jsstring \<times> jsstring list) list \<Rightarrow>
    (jsstring \<times> jsstring list) list \<Rightarrow> (jsstring \<times> jsstring list) list \<Rightarrow> jsstring list" where
  "transliterateToken token digitMap digraphMap singleMap =
     take 60 (uniq (tokenLoop token digitMap digraphMap singleMap 0 [[]]))"

text \<open>
  The three tables of \<open>buildArabicCandidatesFromEnglish\<close>. Their keys are one or two
  code units long, so a read \<open>digitMap[ch]\<close>, \<open>digraphMap[pair]\<close> or \<open>singleMap[ch]\<close> never
  reaches a member of \<open>Object.prototype\<close>.
\<close>

definition digitMap :: "(jsstring \<times> jsstring list) list" where
  "digitMap = [
      (js ''2'', [[0x621], [0x627]]),
      (js ''3'', [[0x639]]),
      (js ''5'', [[0x62E]]),
      (js ''6'', [[0x637]]),
      (js ''7'', [[0x62D]]),
      (js ''8'', [[0x63A], [0x62C]]),
      (js ''9'', [[0x635], [0x636]])]"

definition digraphMap :: "(jsstring \<times> jsstring list) list" where
  "digraphMap = [
      (js ''sh'', [[0x634]]),
      (js ''ch'', [[0x62A, 0x634], [0x634]]),
      (js ''kh'', [[0x62E]]),
      (js ''th'', [[0x62B], [0x630]]),
      (js ''dh'', [[0x630]]),
      (js ''gh'', [[0x63A]]),
      (js ''ph'', [[0x641]]),
      (js ''aa'', [[0x627], []]),
      (js ''ee'', [[0x64A]]),
      (js ''oo'', [[0x648]]),
      (js ''ou'', [[0x648]]),
      (js ''ow'', [[0x648]]),
      (js ''ai'', [[0x64A], [0x627]]),
      (js ''ay'', [[0x64A]]),
      (js ''ea'', [[0x64A], [0x627]]),
      (js ''ie'', [[0x64A]])]"

definition singleMap :: "(jsstring \<times> jsstring list) list" where
  "singleMap = [
      (js ''a'', [[0x627], []]),
      (js ''b'', [[0x628]]),
      (js ''c'', [[0x643], [0x633]]),
      (js ''d'', [[0x62F]]),
      (js ''e'', [[0x64A], []]),
      (js ''f'', [[0x641]]),
      (js ''g'', [[0x62C], [0x63A], [0x642]]),
      (js ''h'', [[0x647], [0x62D]]),
      (js ''i'', [[0x64A]]),
      (js ''j'', [[0x62C]]),
      (js ''k'', [[0x643]]),
      (js ''l'', [[0x644]]),
      (js ''m'', [[0x645]]),
      (js ''n'', [[0x646]]),
      (js ''o'', [[0x648], []]),
      (js ''p'', [[0x628]]),
      (js ''q'', [[0x642]]),
      (js ''r'', [[0x631]]),
      (js ''s'', [[0x633], [0x635]]),
      (js ''t'', [[0x62A], [0x637]]),
      (js ''u'', [[0x648], []]),
      (js ''v'', [[0x641]]),
      (js ''w'', [[0x648]]),
      (js ''x'', [[0x643, 0x633], [0x632]]),
      (js ''y'', [[0x64A], []]),
      (js ''z'', [[0x632], [0x630]])]"

text \<open>
  \<open>query.split(/\s+/)\<close>: the pieces between the runs of white space (an empty piece
  before a leading and after a trailing run); \<open>filter(Boolean)\<close> then drops the empty
  pieces.
\<close>

function splitSpaces :: "jsstring \<Rightarrow> jsstring \<Rightarrow> jsstring list" where
  "splitSpaces piece [] = [piece]"
| "splitSpaces piece (c # cs) =
     (if isWhiteSpace c then piece # splitSpaces [] (dropWhile isWhiteSpace cs)
      else splitSpaces (piece @ [c]) cs)"
  by pat_completeness auto
termination
  by (relation "measure (\<lambda>(piece, s). length s)") (auto simp: length_dropWhile_le less_Suc_eq_le)

text \<open>
  Combining the variants of the tokens: for every token the loop over its variants
  inside the loop over the results so far, each left once \<open>next\<close> holds more than 80
  strings.
\<close>

fun combineInner :: "jsstring \<Rightarrow> jsstring list \<Rightarrow> jsstring list \<Rightarrow> jsstring list" where
  "combineInner base [] nxt = nxt"
| "combineInner base (v # variants) nxt =
     (let nxt = nxt @ [(if base \<noteq> [] then base @ js '' '' else []) @ v]
      in if length nxt > 80 then nxt else combineInner base variants nxt)"

fun combineOuter :: "jsstring list \<Rightarrow> jsstring list \<Rightarrow> jsstring list \<Rightarrow> jsstring list" where
  "combineOuter [] variants nxt = nxt"
| "combineOuter (base # results) variants nxt =
     (let nxt = combineInner base variants nxt
      in if length nxt > 80 then nxt else combineOuter results variants nxt)"

fun combineTokens :: "jsstring list list \<Rightarrow> jsstring list \<Rightarrow> jsstring list" where
  "combineTokens [] results = results"
| "combineTokens (variants # tokenVariants) results =
     combineTokens tokenVariants (combineOuter results variants [])"

definition buildArabicCandidatesFromEnglish :: "jsstring \<Rightarrow> jsstring list" where
  "buildArabicCandidatesFromEnglish englishQuery =
     (if englishQuery = [] then []
      else
        (let query = trim (toLowerCase englishQuery);
             tokens = filter (\<lambda>t. t \<noteq> []) (splitSpaces [] query);
             tokenVariants = map (\<lambda>token. transliterateToken token digitMap digraphMap singleMap) tokens;
             results = combineTokens tokenVariants [[]];
             results = (if length results = 0 then results @ [query] else results)
         in take 100 (uniq results)))"

section \<open>People\<close>

text \<open>
  A Person object, with the fields the matcher, the generation layout and the admin
  operations read or write. A field that may be \<open>null\<close> or absent is an option.
  (\<open>person_id\<close> is the field \<open>id\<close>.)
\<close>

record person =
  person_id :: jsstring
  name :: jsstring
  altNames :: "jsstring list option"
  fatherId :: "jsstring option"
  motherId :: "jsstring option"
  spouseIds :: "jsstring list option"

section \<open>Scoring (getTransliterationScore, calculateMatchScore, getMatchType, search)\<close>

text \<open>
  The loops of \<open>getTransliterationScore\<close>. Each returns \<open>Some\<close> score where the source
  executes a \<open>return\<close> inside the loop, and \<open>None\<close> where the loop runs to its end.
  \<open>dictLoop\<close> is the loop over the variants of the dictionary entry, \<open>candidateLoop\<close>
  the loop over the generated Arabic candidates, \<open>reverseLoop\<close> the loop over
  \<open>englishToArabic[query]\<close>, \<open>partialInner\<close> and \<open>partialOuter\<close> the final nest over
  \<open>Object.entries(this.arabicToEnglish)\<close>.
\<close>

fun dictLoop :: "jsstring \<Rightarrow> jsstring list \<Rightarrow> rat option" where
  "dictLoop query [] = None"
| "dictLoop query (variant # englishVariants) =
     (let similarity = getTextSimilarity query variant
      in if similarity > 0.6 then Some similarity
         else if includes_str variant query \<or> includes_str query variant then Some 0.8
         else dictLoop query englishVariants)"

fun candidateLoop :: "jsstring \<Rightarrow> jsstring list \<Rightarrow> rat option" where
  "candidateLoop arabicName [] = None"
| "candidateLoop arabicName (cand # arCandidates) =
     (let similarity = getTextSimilarity (normalizeText cand) (normalizeText arabicName)
      in if similarity > 0.65 then Some similarity
         else if includes_str (normalizeText arabicName) (normalizeText cand) then Some 0.85
         else candidateLoop arabicName arCandidates)"

fun reverseLoop :: "jsstring \<Rightarrow> jsstring list \<Rightarrow> rat option" where
  "reverseLoop arabicName [] = None"
| "reverseLoop arabicName (variant # arabicVariants) =
     (let similarity = getTextSimilarity variant arabicName
      in if similarity > 0.6 then Some similarity
         else if includes_str variant arabicName \<or> includes_str arabicName variant then Some 0.8
         else reverseLoop arabicName arabicVariants)"

fun partialInner :: "jsstring \<Rightarrow> jsstring \<Rightarrow> jsstring \<Rightarrow> jsstring list \<Rightarrow> rat option" where
  "partialInner query arabicName arabic [] = None"
| "partialInner query arabicName arabic (variant # englishVariants) =
     (if includes_str variant query \<or> includes_str query variant
      then (let similarity = getTextSimilarity arabic arabicName
            in if similarity > 0.5 then Some (similarity * 0.9)
               else partialInner query arabicName arabic englishVariants)
      else partialInner query arabicName arabic englishVariants)"

fun partialOuter :: "jsstring \<Rightarrow> jsstring \<Rightarrow> (jsstring \<times> jsstring list) list \<Rightarrow> rat option" where
  "partialOuter query arabicName [] = None"
| "partialOuter query arabicName ((arabic, englishVariants) # entries) =
     (case partialInner query arabicName arabic englishVariants of
        Some s \<Rightarrow> Some s
      | None \<Rightarrow> partialOuter query arabicName entries)"

text \<open>
  The two paths of the first block, taken when the name is Arabic and the query is not.
  The dictionary path reads \<open>this.arabicToEnglish[arabicName]\<close> and runs \<open>dictLoop\<close> when
  the value is truthy; the generative path builds the candidates and runs
  \<open>candidateLoop\<close>.
\<close>

definition dictionaryPath :: "jsstring \<Rightarrow> jsstring \<Rightarrow> error + rat option" where
  "dictionaryPath query arabicName =
     (case getProp (map_of arabicToEnglish) arabicName of
        Undefined \<Rightarrow> Inr None
      | Own englishVariants \<Rightarrow> Inr (dictLoop query englishVariants)
      | Inherited \<Rightarrow> Inl TypeError)"

definition generativePath :: "jsstring \<Rightarrow> jsstring \<Rightarrow> rat option" where
  "generativePath query arabicName =
     candidateLoop arabicName (buildArabicCandidatesFromEnglish query)"

definition crossScriptBlock :: "jsstring \<Rightarrow> jsstring \<Rightarrow> error + rat option" where
  "crossScriptBlock query arabicName =
     (if isArabic arabicName \<and> \<not> isArabic query
      then (case dictionaryPath query arabicName of
              Inl e \<Rightarrow> Inl e
            | Inr (Some s) \<Rightarrow> Inr (Some s)
            | Inr None \<Rightarrow> Inr (generativePath query arabicName))
      else Inr None)"

definition reverseBlock :: "jsstring \<Rightarrow> jsstring \<Rightarrow> error + rat option" where
  "reverseBlock query arabicName =
     (if isArabic query then Inr None
      else (case getProp englishToArabic query of
              Undefined \<Rightarrow> Inr None
            | Own arabicVariants \<Rightarrow> Inr (reverseLoop arabicName arabicVariants)
            | Inherited \<Rightarrow> Inl TypeError))"

definition getTransliterationScore :: "jsstring \<Rightarrow> jsstring \<Rightarrow> error + rat" where
  "getTransliterationScore query arabicName =
     (case crossScriptBlock query arabicName of
        Inl e \<Rightarrow> Inl e
      | Inr (Some s) \<Rightarrow> Inr s
      | Inr None \<Rightarrow>
          (case reverseBlock query arabicName of
             Inl e \<Rightarrow> Inl e
           | Inr (Some s) \<Rightarrow> Inr s
           | Inr None \<Rightarrow>
               (case partialOuter query arabicName arabicToEnglish of
                  Some s \<Rightarrow> Inr s
                | None \<Rightarrow> Inr 0)))"

text \<open>
  The score of a path that returned nothing is taken as \<open>0\<close>, the value
  \<open>getTransliterationScore\<close> itself returns when nothing matches.
\<close>

definition dictionaryScore :: "jsstring \<Rightarrow> jsstring \<Rightarrow> rat" where
  "dictionaryScore query arabicName =
     (case dictionaryPath query arabicName of Inr (Some s) \<Rightarrow> s | _ \<Rightarrow> 0)"

definition generativeScore :: "jsstring \<Rightarrow> jsstring \<Rightarrow> rat" where
  "generativeScore query arabicName =
     (case generativePath query arabicName of Some s \<Rightarrow> s | None \<Rightarrow> 0)"

text \<open>\<open>calculateMatchScore\<close>: the loop over \<open>person.altNames\<close>, then the function.\<close>

fun altNamesLoop :: "jsstring \<Rightarrow> jsstring list \<Rightarrow> rat \<Rightarrow> rat" where
  "altNamesLoop query [] maxScore = maxScore"
| "altNamesLoop query (altName # rest) maxScore =
     (let altScore = getTextSimilarity query (normalizeText (toLowerCase altName));
          maxScore = max maxScore (altScore * 0.8);
          normalizedAlt = normalizeText (toLowerCase altName);
          maxScore = (if includes_str normalizedAlt query \<or> includes_str query normalizedAlt
                      then max maxScore 0.85 else maxScore)
      in altNamesLoop query rest maxScore)"

definition nameScore :: "jsstring \<Rightarrow> person \<Rightarrow> rat" where
  "nameScore query person = getTextSimilarity query (normalizeText (toLowerCase (name person)))"

definition calculateMatchScore :: "jsstring \<Rightarrow> person \<Rightarrow> error + rat" where
  "calculateMatchScore query person =
     (let maxScore = 0;
          maxScore = max maxScore (nameScore query person);
          normalizedName = normalizeText (toLowerCase (name person));
          maxScore = (if includes_str normalizedName query \<or> includes_str query normalizedName
                      then max maxScore 0.9 else maxScore);
          maxScore = (case altNames person of
                        Some alts \<Rightarrow>
                          if length alts > 0 then altNamesLoop query alts maxScore else maxScore
                      | None \<Rightarrow> maxScore)
      in case getTransliterationScore query (name person) of
           Inl e \<Rightarrow> Inl e
         | Inr transliterationScore \<Rightarrow> Inr (max maxScore transliterationScore))"

definition getMatchType :: "jsstring \<Rightarrow> person \<Rightarrow> jsstring" where
  "getMatchType query person =
     (if isArabic query \<and> isArabic (name person) then js ''Exact Arabic Match''
      else if \<not> isArabic query \<and> isArabic (name person) then js ''English to Arabic Transliteration''
      else if isArabic query \<and> \<not> isArabic (name person) then js ''Arabic to English Transliteration''
      else js ''English Match'')"

record searchResult =
  person :: person
  score :: rat
  matchType :: jsstring

fun searchLoop :: "jsstring \<Rightarrow> person list \<Rightarrow> searchResult list \<Rightarrow> error + searchResult list" where
  "searchLoop normalizedQuery [] results = Inr results"
| "searchLoop normalizedQuery (p # people) results =
     (case calculateMatchScore normalizedQuery p of
        Inl e \<Rightarrow> Inl e
      | Inr s \<Rightarrow>
          searchLoop normalizedQuery people
            (if s > 0
             then results @ [\<lparr>person = p, score = s, matchType = getMatchType normalizedQuery p\<rparr>]
             else results))"

text \<open>
  \<open>results.sort((a, b) => b.score - a.score)\<close> is a stable sort by descending score,
  as is the insertion sort \<^const>\<open>sort_key\<close> on the negated score.
\<close>

definition search :: "jsstring \<Rightarrow> person list \<Rightarrow> error + searchResult list" where
  "search query people =
     (if query = [] \<or> trim query = [] then Inr []
      else
        (let normalizedQuery = normalizeText (toLowerCase (trim query))
         in case searchLoop normalizedQuery people [] of
              Inl e \<Rightarrow> Inl e
            | Inr results \<Rightarrow> Inr (sort_key (\<lambda>r. - score r) results)))"

section \<open>Generations (FamilyTreeGL.computeGeneration)\<close>

text \<open>
  The constructor builds \<open>this.people = new Map(data.people.map(p => [p.id, p]))\<close>, in
  which a later person replaces an earlier one with the same id, and starts with
  \<open>this.generationCache = {}\<close>.
\<close>

definition peopleMap :: "person list \<Rightarrow> (jsstring \<rightharpoonup> person)" where
  "peopleMap ps = map_of (rev (map (\<lambda>p. (person_id p, p)) ps))"

text \<open>
  The test \<open>p.fatherId ? ... : 0\<close> takes a reference that is \<open>null\<close>, absent or the empty
  string as no reference.
\<close>

definition truthyId :: "jsstring option \<Rightarrow> jsstring option" where
  "truthyId r = (case r of None \<Rightarrow> None | Some s \<Rightarrow> if s = [] then None else Some s)"

text \<open>
  The cache is a plain object, so \<open>this.generationCache[id]\<close> for the name of a member of
  \<open>Object.prototype\<close> is a function: not \<open>null\<close>, and returned as the generation. Adding 1
  to it gives a string and \<open>Math.max\<close> of that gives \<open>NaN\<close>; \<open>Junk\<close> stands for all these
  values that are not a generation number.
\<close>

datatype genval = Gen nat | Junk

fun plusOne :: "genval \<Rightarrow> genval" where
  "plusOne (Gen n) = Gen (n + 1)"
| "plusOne Junk = Junk"

fun maxGen :: "genval \<Rightarrow> genval \<Rightarrow> genval" where
  "maxGen (Gen a) (Gen b) = Gen (max a b)"
| "maxGen _ _ = Junk"

text \<open>
  \<open>computeGeneration\<close> recurses through the parent references and threads the cache.
  On a cycle of references it never returns; it is a partial function, with \<open>None\<close> for
  no result.
\<close>

partial_function (option) computeGeneration ::
    "(jsstring \<rightharpoonup> person) \<Rightarrow> (jsstring \<rightharpoonup> genval) \<Rightarrow> jsstring \<Rightarrow> (genval \<times> (jsstring \<rightharpoonup> genval)) option" where
  "computeGeneration people generationCache i =
     (case getProp generationCache i of
        Own g \<Rightarrow> Some (g, generationCache)
      | Inherited \<Rightarrow> Some (Junk, generationCache)
      | Undefined \<Rightarrow>
          (case people i of
             None \<Rightarrow> Some (Gen 0, generationCache)
           | Some p \<Rightarrow>
               Option.bind
                 (case truthyId (fatherId p) of
                    None \<Rightarrow> Some (Gen 0, generationCache)
                  | Some f \<Rightarrow>
                      Option.bind (computeGeneration people generationCache f)
                        (\<lambda>(g, cache). Some (plusOne g, cache)))
                 (\<lambda>(fatherGen, cache1).
                    Option.bind
                      (case truthyId (motherId p) of
                         None \<Rightarrow> Some (Gen 0, cache1)
                       | Some m \<Rightarrow>
                           Option.bind (computeGeneration people cache1 m)
                             (\<lambda>(g, cache). Some (plusOne g, cache)))
                      (\<lambda>(motherGen, cache2).
                         (let gen = maxGen fatherGen motherGen
                          in Some (gen, cache2(i \<mapsto> gen)))))))"

declare computeGeneration.simps [code]

text \<open>
  Chains of parent references. \<open>parentChain people i n\<close>: from \<open>i\<close> there is a chain of
  \<open>n\<close> references, each the non-empty \<open>fatherId\<close> or \<open>motherId\<close> of a person of the
  collection (the last one may name an id the collection does not have).
  \<open>resolvableChain\<close>: the same, with every reference resolving to a person of the
  collection. \<open>parentRefs\<close> is the reference graph, as pairs of parent id and child id.
\<close>

inductive parentChain :: "(jsstring \<rightharpoonup> person) \<Rightarrow> jsstring \<Rightarrow> nat \<Rightarrow> bool"
  for people :: "jsstring \<rightharpoonup> person" where
  chainEnd: "parentChain people i 0"
| chainFather: "people i = Some p \<Longrightarrow> truthyId (fatherId p) = Some f \<Longrightarrow>
     parentChain people f n \<Longrightarrow> parentChain people i (Suc n)"
| chainMother: "people i = Some p \<Longrightarrow> truthyId (motherId p) = Some m \<Longrightarrow>
     parentChain people m n \<Longrightarrow> parentChain people i (Suc n)"

inductive resolvableChain :: "(jsstring \<rightharpoonup> person) \<Rightarrow> jsstring \<Rightarrow> nat \<Rightarrow> bool"
  for people :: "jsstring \<rightharpoonup> person" where
  resolvableEnd: "resolvableChain people i 0"
| resolvableFather: "people i = Some p \<Longrightarrow> truthyId (fatherId p) = Some f \<Longrightarrow> people f = Some q \<Longrightarrow>
     resolvableChain people f n \<Longrightarrow> resolvableChain people i (Suc n)"
| resolvableMother: "people i = Some p \<Longrightarrow> truthyId (motherId p) = Some m \<Longrightarrow> people m = Some q \<Longrightarrow>
     resolvableChain people m n \<Longrightarrow> resolvableChain people i (Suc n)"

definition parentRefs :: "(jsstring \<rightharpoonup> person) \<Rightarrow> (jsstring \<times> jsstring) set" where
  "parentRefs people =
     {(j, i). \<exists>p. people i = Some p \<and> (truthyId (fatherId p) = Some j \<or> truthyId (motherId p) = Some j)}"

definition longestChain :: "(jsstring \<rightharpoonup> person) \<Rightarrow> jsstring \<Rightarrow> nat \<Rightarrow> bool" where
  "longestChain people i g \<longleftrightarrow> parentChain people i g \<and> (\<forall>n. parentChain people i n \<longrightarrow> n \<le> g)"

definition soundCache :: "(jsstring \<rightharpoonup> person) \<Rightarrow> (jsstring \<rightharpoonup> genval) \<Rightarrow> bool" where
  "soundCache people cache \<longleftrightarrow>
     (\<forall>k v. cache k = Some v \<longrightarrow> k \<notin> set objectPrototypeKeys \<and> (\<exists>g. v = Gen g \<and> longestChain people k g))"

text \<open>
  Proof vocabulary: what one parent reference contributes to the generation of a
  person, \<open>0\<close> without a reference and one more than the longest chain of the parent with
  one.
\<close>

definition branch :: "(jsstring \<rightharpoonup> person) \<Rightarrow> jsstring option \<Rightarrow> nat \<Rightarrow> bool" where
  "branch P r g \<longleftrightarrow> (r = None \<and> g = 0) \<or> (\<exists>f gf. r = Some f \<and> longestChain P f gf \<and> g = gf + 1)"

section \<open>Admin edits (AdminPanel.updatePerson, AdminPanel.deletePerson)\<close>

text \<open>
  The data the admin panel edits is \<open>this.familyTree.data\<close>, with the array of people
  and the array of marriage records. (\<open>marriage_id\<close> is the field \<open>id\<close>.)
\<close>

record marriage =
  marriage_id :: jsstring
  spouse1Id :: jsstring
  spouse2Id :: jsstring
  children :: "jsstring list"

record familyData =
  people :: "person list"
  marriages :: "marriage list"

text \<open>
  The argument \<open>updatedData\<close> of \<open>updatePerson\<close>: any subset of the fields of a person.
  \<open>None\<close> is a field the object does not have; a field it has may itself hold \<open>null\<close>.
\<close>

record personUpdate =
  upd_id :: "jsstring option"
  upd_name :: "jsstring option"
  upd_altNames :: "jsstring list option option"
  upd_fatherId :: "jsstring option option"
  upd_motherId :: "jsstring option option"
  upd_spouseIds :: "jsstring list option option"

text \<open>The spread \<open>{ ...person, ...updatedData }\<close>: the fields of \<open>updatedData\<close> win.\<close>

definition spread :: "person \<Rightarrow> personUpdate \<Rightarrow> person" where
  "spread p u =
     \<lparr>person_id = (case upd_id u of None \<Rightarrow> person_id p | Some v \<Rightarrow> v),
      name = (case upd_name u of None \<Rightarrow> name p | Some v \<Rightarrow> v),
      altNames = (case upd_altNames u of None \<Rightarrow> altNames p | Some v \<Rightarrow> v),
      fatherId = (case upd_fatherId u of None \<Rightarrow> fatherId p | Some v \<Rightarrow> v),
      motherId = (case upd_motherId u of None \<Rightarrow> motherId p | Some v \<Rightarrow> v),
      spouseIds = (case upd_spouseIds u of None \<Rightarrow> spouseIds p | Some v \<Rightarrow> v)\<rparr>"

fun findIndex :: "('a \<Rightarrow> bool) \<Rightarrow> 'a list \<Rightarrow> nat option" where
  "findIndex P [] = None"
| "findIndex P (x # xs) = (if P x then Some 0 else map_option Suc (findIndex P xs))"

text \<open>
  \<open>updatePerson\<close> returns \<open>false\<close> when no person has the id; otherwise it replaces that
  person by the spread and returns \<open>true\<close>. The call \<open>this.familyTree.updateData\<close> that
  follows rebuilds the tree's lookup maps and scene from the same arrays and
  \<open>saveData\<close> stores them; neither changes the data.
\<close>

definition updatePerson :: "familyData \<Rightarrow> jsstring \<Rightarrow> personUpdate \<Rightarrow> bool \<times> familyData" where
  "updatePerson currentData personId updatedData =
     (case findIndex (\<lambda>p. person_id p = personId) (people currentData) of
        None \<Rightarrow> (False, currentData)
      | Some personIndex \<Rightarrow>
          (True, currentData\<lparr>people :=
             (people currentData)[personIndex := spread (people currentData ! personIndex) updatedData]\<rparr>))"

text \<open>
  \<open>deletePerson\<close>; \<open>confirmed\<close> is the answer to the \<open>confirm\<close> dialog. It filters the
  person out of the people, filters out the marriages the person is a spouse of, and
  clears the person from the \<open>fatherId\<close>, \<open>motherId\<close> and \<open>spouseIds\<close> of the others.
\<close>

definition unlink :: "jsstring \<Rightarrow> person \<Rightarrow> person" where
  "unlink personId p =
     p\<lparr>fatherId := (if fatherId p = Some personId then None else fatherId p),
       motherId := (if motherId p = Some personId then None else motherId p),
       spouseIds := (case spouseIds p of
                       None \<Rightarrow> None
                     | Some ids \<Rightarrow> Some (filter (\<lambda>i. i \<noteq> personId) ids))\<rparr>"

definition deletePerson :: "bool \<Rightarrow> familyData \<Rightarrow> jsstring \<Rightarrow> bool \<times> familyData" where
  "deletePerson confirmed currentData personId =
     (if \<not> confirmed then (False, currentData)
      else
        (let ps = filter (\<lambda>p. person_id p \<noteq> personId) (people currentData);
             ms = filter (\<lambda>m. spouse1Id m \<noteq> personId \<and> spouse2Id m \<noteq> personId) (marriages currentData)
         in (True, \<lparr>people = map (unlink personId) ps, marriages = ms\<rparr>)))"

text \<open>
  The relationship invariants of the data model: every \<open>fatherId\<close>, \<open>motherId\<close> and
  \<open>spouseIds\<close> entry of a person names a person of the array and is not the person's own
  id; every marriage names people of the array as its spouses; every child of a
  marriage is a person of the array.
\<close>

definition personRefs :: "person \<Rightarrow> jsstring list" where
  "personRefs p =
     (case fatherId p of None \<Rightarrow> [] | Some f \<Rightarrow> [f]) @
     (case motherId p of None \<Rightarrow> [] | Some m \<Rightarrow> [m]) @
     (case spouseIds p of None \<Rightarrow> [] | Some ids \<Rightarrow> ids)"

definition peopleValid :: "person list \<Rightarrow> bool" where
  "peopleValid ps =
     list_all (\<lambda>p. list_all (\<lambda>r. r \<in> person_id ` set ps \<and> r \<noteq> person_id p) (personRefs p)) ps"

definition spousesValid :: "person list \<Rightarrow> marriage list \<Rightarrow> bool" where
  "spousesValid ps ms =
     list_all (\<lambda>m. spouse1Id m \<in> person_id ` set ps \<and> spouse2Id m \<in> person_id ` set ps) ms"

definition childrenValid :: "person list \<Rightarrow> marriage list \<Rightarrow> bool" where
  "childrenValid ps ms = list_all (\<lambda>m. list_all (\<lambda>c. c \<in> person_id ` set ps) (children m)) ms"

definition relationshipsValid :: "familyData \<Rightarrow> bool" where
  "relationshipsValid d \<longleftrightarrow>
     peopleValid (people d) \<and> spousesValid (people d) (marriages d)
     \<and> childrenValid (people d) (marriages d)"

text \<open>Proof vocabulary for \<open>trim\<close>: the strip of trailing white space.\<close>

definition rtrim :: "jsstring \<Rightarrow> jsstring" where
  "rtrim s = rev (dropWhile isWhiteSpace (rev s))"

section \<open>Example data\<close>

text \<open>
  People and names used as concrete inputs below: a person with a Latin name; the
  Arabic name for Ahmed as the dictionary spells it (with hamza above the alef); a person
  whose name is the same word written with a bare alef; the Arabic name Noor.
\<close>

definition personAli :: person where
  "personAli = \<lparr>person_id = js ''P-000001'', name = js ''Ali'', altNames = None,
     fatherId = None, motherId = None, spouseIds = None\<rparr>"

definition ahmadArabic :: jsstring where
  "ahmadArabic = [0x623, 0x62D, 0x645, 0x62F]"

definition personAhmadBare :: person where
  "personAhmadBare = \<lparr>person_id = js ''P-000003'', name = [0x627, 0x62D, 0x645, 0x62F],
     altNames = None, fatherId = None, motherId = None, spouseIds = None\<rparr>"

definition noorArabic :: jsstring where
  "noorArabic = [0x646, 0x648, 0x631]"

text \<open>A person whose name is the English word \<open>constructor\<close>.\<close>

definition personConstructor :: person where
  "personConstructor = \<lparr>person_id = js ''P-000004'', name = js ''constructor'', altNames = None,
     fatherId = None, motherId = None, spouseIds = None\<rparr>"

text \<open>
  A person whose \<open>fatherId\<close> names nobody of the collection; a family of two spouses,
  their child and their marriage record; an edit that makes the child its own father,
  and an edit that only renames.
\<close>

definition orphan :: person where
  "orphan = \<lparr>person_id = js ''P-000001'', name = js ''Ali'', altNames = None,
     fatherId = Some (js ''P-999999''), motherId = None, spouseIds = None\<rparr>"

definition familyExample :: familyData where
  "familyExample =
     \<lparr>people =
        [\<lparr>person_id = js ''P-000010'', name = js ''Soliman'', altNames = None,
           fatherId = None, motherId = None, spouseIds = Some [js ''P-000012'']\<rparr>,
         \<lparr>person_id = js ''P-000011'', name = js ''Dawood'', altNames = None,
           fatherId = Some (js ''P-000010''), motherId = Some (js ''P-000012''), spouseIds = Some []\<rparr>,
         \<lparr>person_id = js ''P-000012'', name = js ''Mariam'', altNames = None,
           fatherId = None, motherId = None, spouseIds = Some [js ''P-000010'']\<rparr>],
      marriages =
        [\<lparr>marriage_id = js ''M-P-000010_P-000012'', spouse1Id = js ''P-000010'',
           spouse2Id = js ''P-000012'', children = [js ''P-000011'']\<rparr>]\<rparr>"

definition selfFather :: personUpdate where
  "selfFather = \<lparr>upd_id = None, upd_name = None, upd_altNames = None,
     upd_fatherId = Some (Some (js ''P-000011'')), upd_motherId = None, upd_spouseIds = None\<rparr>"

definition renameOnly :: personUpdate where
  "renameOnly = \<lparr>upd_id = None, upd_name = Some (js ''Daoud''), upd_altNames = None,
     upd_fatherId = None, upd_motherId = None, upd_spouseIds = None\<rparr>"

section \<open>Properties\<close>

subsection \<open>Marriage identifiers\<close>

text \<open>
  C5. For all person identifiers \<open>A\<close> and \<open>B\<close>, \<open>generateMarriageId(A, B)\<close> equals
  \<open>generateMarriageId(B, A)\<close>: the identifier is built from the two sorted spouse
  identifiers, so the order of the spouses does not matter.
\<close>

theorem generateMarriageId_commute:
  "generateMarriageId a b = generateMarriageId b a"
proof (cases "a = b")
  case True
  then show ?thesis by simp
next
  case False
  then have "sort [a, b] = sort [b, a]"
    by (cases "a \<le> b") auto
  then show ?thesis
    by (simp only: generateMarriageId_def)
qed

subsection \<open>Edit distance\<close>

lemma lev_Nil2 [simp]: "lev xs [] = length xs"
  by (cases xs) auto

lemma min_grid:
  fixes A B C D E F G H I c1 c2 :: nat
  shows "min (min (A + c2) (min (B + 1) (C + 1)) + c1)
           (min (min (D + c2) (min (E + 1) (F + 1)) + 1)
                (min (G + c2) (min (H + 1) (I + 1)) + 1))
       = min (min (A + c1) (min (D + 1) (G + 1)) + c2)
           (min (min (B + c1) (min (E + 1) (H + 1)) + 1)
                (min (C + c1) (min (F + 1) (I + 1)) + 1))"
  by (simp only: min_add_distrib_left min_add_distrib_right min.assoc min.left_commute
      min.commute add.assoc add.left_commute add.commute)

lemma lev_Cons: "lev (x # xs) (y # ys) =
     min (lev xs ys + subst_cost x y) (min (lev xs (y # ys) + 1) (lev (x # xs) ys + 1))"
  by (simp add: subst_cost_def)

lemma lev_snoc_aux:
  "lev (xs @ [x]) (ys @ [y]) =
     min (lev xs ys + subst_cost x y)
       (min (lev (xs @ [x]) ys + 1) (lev xs (ys @ [y]) + 1))"
proof (induction "length xs + length ys" arbitrary: xs ys rule: less_induct)
  case less
  show ?case
  proof (cases xs)
    case xs: Nil
    show ?thesis
    proof (cases ys)
      case Nil
      with xs show ?thesis by (simp add: subst_cost_def)
    next
      case ys: (Cons b ys')
      have ih: "lev ([] @ [x]) (ys' @ [y]) =
        min (lev [] ys' + subst_cost x y)
          (min (lev ([] @ [x]) ys' + 1) (lev [] (ys' @ [y]) + 1))"
        by (rule less) (simp add: xs ys)
      have "lev [x] (b # ys' @ [y]) =
          min (length ys' + 1 + subst_cost x b)
            (min (length ys' + 3) (lev [x] (ys' @ [y]) + 1))"
        by (simp add: lev_Cons del: lev.simps(3))
      moreover have "lev [x] (b # ys') =
          min (length ys' + subst_cost x b) (min (length ys' + 2) (lev [x] ys' + 1))"
        by (simp add: lev_Cons del: lev.simps(3))
      moreover have "lev [x] (ys' @ [y]) =
           min (length ys' + subst_cost x y) (min (lev [x] ys' + 1) (length ys' + 2))"
        using ih by simp
      ultimately show ?thesis
        unfolding xs ys by (simp add: min.assoc min.left_commute min.commute del: lev.simps(3))
    qed
  next
    case xs: (Cons a xs')
    show ?thesis
    proof (cases ys)
      case ys: Nil
      have ih: "lev (xs' @ [x]) ([] @ [y]) =
        min (lev xs' [] + subst_cost x y)
          (min (lev (xs' @ [x]) [] + 1) (lev xs' ([] @ [y]) + 1))"
        by (rule less) (simp add: xs ys)
      have "lev (a # xs' @ [x]) [y] =
          min (length xs' + 1 + subst_cost a y)
            (min (lev (xs' @ [x]) [y] + 1) (length xs' + 3))"
        by (simp add: lev_Cons del: lev.simps(3))
      moreover have "lev (a # xs') [y] =
          min (length xs' + subst_cost a y) (min (lev xs' [y] + 1) (length xs' + 2))"
        by (simp add: lev_Cons del: lev.simps(3))
      moreover have "lev (xs' @ [x]) [y] =
           min (length xs' + subst_cost x y) (min (length xs' + 2) (lev xs' [y] + 1))"
        using ih by simp
      ultimately show ?thesis
        unfolding xs ys by (simp add: min.assoc min.left_commute min.commute del: lev.simps(3))
    next
      case ys: (Cons b ys')
      have 1: "lev (xs' @ [x]) (ys' @ [y]) =
        min (lev xs' ys' + subst_cost x y)
          (min (lev (xs' @ [x]) ys' + 1) (lev xs' (ys' @ [y]) + 1))"
        by (rule less) (simp add: xs ys)
      have 2: "lev (xs' @ [x]) ((b # ys') @ [y]) =
        min (lev xs' (b # ys') + subst_cost x y)
          (min (lev (xs' @ [x]) (b # ys') + 1) (lev xs' ((b # ys') @ [y]) + 1))"
        by (rule less) (simp add: xs ys)
      have 3: "lev ((a # xs') @ [x]) (ys' @ [y]) =
        min (lev (a # xs') ys' + subst_cost x y)
          (min (lev ((a # xs') @ [x]) ys' + 1) (lev (a # xs') (ys' @ [y]) + 1))"
        by (rule less) (simp add: xs ys)
      have "lev ((a # xs') @ [x]) ((b # ys') @ [y]) =
        min (lev (xs' @ [x]) (ys' @ [y]) + subst_cost a b)
          (min (lev (xs' @ [x]) ((b # ys') @ [y]) + 1) (lev ((a # xs') @ [x]) (ys' @ [y]) + 1))"
        by (simp add: lev_Cons del: lev.simps(3))
      also have "\<dots> =
        min (min (lev xs' ys' + subst_cost x y)
               (min (lev (xs' @ [x]) ys' + 1) (lev xs' (ys' @ [y]) + 1)) + subst_cost a b)
          (min (min (lev xs' (b # ys') + subst_cost x y)
                  (min (lev (xs' @ [x]) (b # ys') + 1) (lev xs' ((b # ys') @ [y]) + 1)) + 1)
               (min (lev (a # xs') ys' + subst_cost x y)
                  (min (lev ((a # xs') @ [x]) ys' + 1) (lev (a # xs') (ys' @ [y]) + 1)) + 1))"
        by (simp only: 1 2 3)
      also have "\<dots> =
        min (min (lev xs' ys' + subst_cost a b)
               (min (lev xs' (b # ys') + 1) (lev (a # xs') ys' + 1)) + subst_cost x y)
          (min (min (lev (xs' @ [x]) ys' + subst_cost a b)
                  (min (lev (xs' @ [x]) (b # ys') + 1) (lev ((a # xs') @ [x]) ys' + 1)) + 1)
               (min (lev xs' (ys' @ [y]) + subst_cost a b)
                  (min (lev xs' ((b # ys') @ [y]) + 1) (lev (a # xs') (ys' @ [y]) + 1)) + 1))"
        by (rule min_grid)
      also have "\<dots> =
        min (lev (a # xs') (b # ys') + subst_cost x y)
          (min (lev ((a # xs') @ [x]) (b # ys') + 1) (lev (a # xs') ((b # ys') @ [y]) + 1))"
        by (simp add: lev_Cons del: lev.simps(3))
      finally show ?thesis
        unfolding xs ys .
    qed
  qed
qed

lemma lev_sym: "lev xs ys = lev ys xs"
  by (induction xs ys rule: lev.induct) (auto simp: min.assoc min.left_commute min.commute)

lemma lev_le_snoc1: "lev xs ys \<le> lev (xs @ [x]) ys + 1"
proof (induction xs ys rule: lev.induct)
  case (1 ys)
  have "length zs \<le> lev [x] zs + 1" for zs
    by (induction zs) (auto simp: min_def)
  then show ?case by simp
next
  case (2 v va)
  then show ?case by simp
next
  case (3 a xs b ys)
  then show ?case
    by (auto simp: min_def)
qed

lemma lev_le_snoc2: "lev xs ys \<le> lev xs (ys @ [y]) + 1"
  using lev_le_snoc1 [of ys xs y] by (simp add: lev_sym)

lemma lev_snoc_code:
  "lev (xs @ [x]) (ys @ [y]) =
     (if y = x then lev xs ys
      else min (lev xs ys + 1) (min (lev xs (ys @ [y]) + 1) (lev (xs @ [x]) ys + 1)))"
  using lev_le_snoc1 [of xs ys x] lev_le_snoc2 [of xs ys y]
  by (auto simp: lev_snoc_aux subst_cost_def min_def)

lemma initRows_eq:
  "i \<le> n + 1 \<Longrightarrow> length m = i \<Longrightarrow> initRows n i m = m @ map (\<lambda>k. [k]) [i..<n + 1]"
proof (induction n i m rule: initRows.induct)
  case (1 n i m)
  show ?case
  proof (cases "i \<le> n")
    case True
    have m': "arraySet m i [i] = m @ [[i]]"
      using 1(3) by (simp add: arraySet_def)
    have "initRows n i m = initRows n (i + 1) (m @ [[i]])"
      using True m' by simp
    also have "\<dots> = (m @ [[i]]) @ map (\<lambda>k. [k]) [i + 1..<n + 1]"
      using True 1(3) by (intro 1(1) [unfolded m']) auto
    also have "\<dots> = m @ map (\<lambda>k. [k]) [i..<n + 1]"
      using True by (simp add: upt_conv_Cons)
    finally show ?thesis .
  next
    case False
    with 1(2) show ?thesis by simp
  qed
qed

lemma initCols_eq:
  "j \<le> n + 1 \<Longrightarrow> m \<noteq> [] \<Longrightarrow> m ! 0 = [0..<max 1 j] \<Longrightarrow>
     initCols n j m = m[0 := [0..<n + 1]]"
proof (induction n j m rule: initCols.induct)
  case (1 n j m)
  show ?case
  proof (cases "j \<le> n")
    case True
    have row: "arraySet (m ! 0) j j = [0..<max 1 (j + 1)]"
      using 1(4) by (cases j) (auto simp: arraySet_def)
    have m': "arraySet m 0 (arraySet (m ! 0) j j) = m[0 := [0..<max 1 (j + 1)]]"
      using 1(3) row by (simp add: arraySet_def)
    have "initCols n j m = initCols n (j + 1) (m[0 := [0..<max 1 (j + 1)]])"
      using True m' by simp
    also have "\<dots> = (m[0 := [0..<max 1 (j + 1)]])[0 := [0..<n + 1]]"
      using True 1(3) m' by (intro 1(1) [unfolded m']) auto
    finally show ?thesis by simp
  next
    case False
    with 1(2) have "j = n + 1" by simp
    with False 1(3,4) show ?thesis
      by (cases m) auto
  qed
qed

lemma dist_table_0_left [simp]: "dist_table s1 s2 i 0 = min (length s2) i"
  by (simp add: dist_table_def)

lemma dist_table_0_right [simp]: "dist_table s1 s2 0 j = min (length s1) j"
  by (simp add: dist_table_def)

lemma dist_table_step:
  assumes "1 \<le> i" "i \<le> length s2" "1 \<le> j" "j \<le> length s1"
  shows "dist_table s1 s2 i j =
     (if s2 ! (i - 1) = s1 ! (j - 1) then dist_table s1 s2 (i - 1) (j - 1)
      else min (dist_table s1 s2 (i - 1) (j - 1) + 1)
             (min (dist_table s1 s2 i (j - 1) + 1) (dist_table s1 s2 (i - 1) j + 1)))"
proof -
  have t1: "take j s1 = take (j - 1) s1 @ [s1 ! (j - 1)]"
    using assms(3,4) take_Suc_conv_app_nth [of "j - 1" s1] by simp
  have t2: "take i s2 = take (i - 1) s2 @ [s2 ! (i - 1)]"
    using assms(1,2) take_Suc_conv_app_nth [of "i - 1" s2] by simp
  show ?thesis
    unfolding dist_table_def
    by (subst t1, subst t2, subst lev_snoc_code) (simp only: t1 [symmetric] t2 [symmetric])
qed

lemma cell_eq:
  assumes "1 \<le> i" "i \<le> length s2" "1 \<le> j" "j \<le> length s1"
    and "m ! (i - 1) = full_row s1 s2 (i - 1)"
    and "m ! i = map (dist_table s1 s2 i) [0..<j]"
  shows "cell s1 s2 m i j = dist_table s1 s2 i j"
proof -
  have a: "m ! (i - 1) ! (j - 1) = dist_table s1 s2 (i - 1) (j - 1)"
    using assms by (simp add: full_row_def del: upt_Suc)
  have b: "m ! (i - 1) ! j = dist_table s1 s2 (i - 1) j"
    using assms by (simp add: full_row_def del: upt_Suc)
  have c: "m ! i ! (j - 1) = dist_table s1 s2 i (j - 1)"
    using assms by (simp del: upt_Suc)
  show ?thesis
    unfolding cell_def a b c using dist_table_step [OF assms(1-4)] by simp
qed

lemma fillRow_eq:
  "1 \<le> i \<Longrightarrow> i \<le> length s2 \<Longrightarrow> i < length m \<Longrightarrow> 1 \<le> j \<Longrightarrow> j \<le> length s1 + 1 \<Longrightarrow>
   m ! (i - 1) = full_row s1 s2 (i - 1) \<Longrightarrow> m ! i = map (dist_table s1 s2 i) [0..<j] \<Longrightarrow>
   fillRow s1 s2 i j m = m[i := full_row s1 s2 i]"
proof (induction s1 s2 i j m rule: fillRow.induct)
  case (1 s1 s2 i j m)
  show ?case
  proof (cases "j \<le> length s1")
    case True
    have c: "cell s1 s2 m i j = dist_table s1 s2 i j"
      using 1(2,3,5,7,8) True by (intro cell_eq) auto
    have row: "arraySet (m ! i) j (cell s1 s2 m i j) = map (dist_table s1 s2 i) [0..<j + 1]"
      unfolding c using 1(8) by (simp add: arraySet_def)
    have m': "arraySet m i (arraySet (m ! i) j (cell s1 s2 m i j))
        = m[i := map (dist_table s1 s2 i) [0..<j + 1]]"
      unfolding row using 1(4) by (simp add: arraySet_def)
    have "fillRow s1 s2 i j m = fillRow s1 s2 i (j + 1) (m[i := map (dist_table s1 s2 i) [0..<j + 1]])"
      using True m' by simp
    also have "\<dots> = (m[i := map (dist_table s1 s2 i) [0..<j + 1]])[i := full_row s1 s2 i]"
      using True 1(2-8) by (intro 1(1) [unfolded m']) auto
    finally show ?thesis by simp
  next
    case False
    with 1(6) have "j = length s1 + 1" by simp
    with 1(8) have "full_row s1 s2 i = m ! i"
      by (simp add: full_row_def del: upt_Suc)
    with False show ?thesis by simp
  qed
qed


lemma full_row_0: "full_row s1 s2 0 = [0..<length s1 + 1]"
  unfolding full_row_def by (rule nth_equalityI) (auto simp del: upt_Suc)

lemma fillRows_eq:
  "1 \<le> i \<Longrightarrow> i \<le> length s2 + 1 \<Longrightarrow>
   m = map (full_row s1 s2) [0..<i] @ map (\<lambda>k. [k]) [i..<length s2 + 1] \<Longrightarrow>
   fillRows s1 s2 i m = map (full_row s1 s2) [0..<length s2 + 1]"
proof (induction s1 s2 i m rule: fillRows.induct)
  case (1 s1 s2 i m)
  show ?case
  proof (cases "i \<le> length s2")
    case True
    have len: "length m = length s2 + 1"
      using 1(3) 1(4) by simp
    have prev: "m ! (i - 1) = full_row s1 s2 (i - 1)"
      using 1(2) unfolding 1(4) by (simp add: nth_append del: upt_Suc)
    have "m ! i = [i]"
      using True unfolding 1(4) by (simp add: nth_append del: upt_Suc)
    then have cur: "m ! i = map (dist_table s1 s2 i) [0..<1]"
      using True by simp
    have row: "fillRow s1 s2 i 1 m = m[i := full_row s1 s2 i]"
      using 1(2) True len prev cur by (intro fillRow_eq) auto
    have upd: "m[i := full_row s1 s2 i]
       = map (full_row s1 s2) [0..<i + 1] @ map (\<lambda>k. [k]) [i + 1..<length s2 + 1]"
      using True unfolding 1(4)
      by (simp add: list_update_append upt_conv_Cons [of i] del: upt_Suc) simp
    have "fillRows s1 s2 i m = fillRows s1 s2 (i + 1) (m[i := full_row s1 s2 i])"
      using True row by simp
    also have "\<dots> = map (full_row s1 s2) [0..<length s2 + 1]"
      using True upd by (intro 1(1) [unfolded row]) auto
    finally show ?thesis .
  next
    case False
    with 1(3) have "i = length s2 + 1" by simp
    with False 1(4) show ?thesis by simp
  qed
qed

lemma levenshteinDistance_lev: "levenshteinDistance str1 str2 = lev str1 str2"
proof -
  let ?n1 = "length str1" and ?n2 = "length str2"
  have 1: "initRows ?n2 0 [] = map (\<lambda>k. [k]) [0..<?n2 + 1]"
    using initRows_eq [of 0 ?n2 "[]"] by simp
  have 2: "initCols ?n1 0 (map (\<lambda>k. [k]) [0..<?n2 + 1])
      = (map (\<lambda>k. [k]) [0..<?n2 + 1])[0 := [0..<?n1 + 1]]"
    by (rule initCols_eq) (simp_all add: upt_conv_Cons del: upt_Suc)
  have 3: "(map (\<lambda>k. [k]) [0..<?n2 + 1])[0 := [0..<?n1 + 1]]
      = map (full_row str1 str2) [0..<1] @ map (\<lambda>k. [k]) [1..<?n2 + 1]"
    by (simp add: upt_conv_Cons [of 0] full_row_0 del: upt_Suc)
  have 4: "fillRows str1 str2 1 ((map (\<lambda>k. [k]) [0..<?n2 + 1])[0 := [0..<?n1 + 1]])
      = map (full_row str1 str2) [0..<?n2 + 1]"
    by (rule fillRows_eq [OF _ _ 3]) simp_all
  have "levenshteinDistance str1 str2 = map (full_row str1 str2) [0..<?n2 + 1] ! ?n2 ! ?n1"
    by (simp only: levenshteinDistance_def Let_def 1 2 4)
  also have "\<dots> = dist_table str1 str2 ?n2 ?n1"
    by (simp add: full_row_def nth_append del: upt_Suc)
  finally show ?thesis
    by (simp add: dist_table_def)
qed

lemma lev_same [simp]: "lev xs xs = 0"
  by (induction xs) auto

text \<open>
  C3. For all strings \<open>a\<close> and \<open>b\<close>, \<open>getTextSimilarity(a, b)\<close> equals
  \<open>1 - levenshtein(a, b) / max(len(a), len(b))\<close>, where \<open>levenshtein\<close> is the unit-cost
  edit distance \<^const>\<open>lev\<close>; in particular equal strings score exactly 1. (For two empty
  strings the quotient is \<open>0 / 0\<close>, which is \<open>0\<close> in HOL; the code answers 1 there, by
  its test for equal strings.)
\<close>

theorem getTextSimilarity_formula:
  "getTextSimilarity a b = 1 - of_nat (lev a b) / of_nat (max (length a) (length b))
   \<and> getTextSimilarity a a = 1"
proof
  show "getTextSimilarity a a = 1"
    by (simp add: getTextSimilarity_def)
  show "getTextSimilarity a b = 1 - of_nat (lev a b) / of_nat (max (length a) (length b))"
  proof (cases "a = b")
    case True
    then show ?thesis by (simp add: getTextSimilarity_def)
  next
    case False
    show ?thesis
    proof (cases "a = [] \<or> b = []")
      case True
      with False show ?thesis
        by (auto simp: getTextSimilarity_def)
    next
      case False
      with \<open>a \<noteq> b\<close> show ?thesis
        by (simp add: getTextSimilarity_def levenshteinDistance_lev Let_def)
    qed
  qed
qed

subsection \<open>Normalisation\<close>

lemma trim_prefix_of_dropWhile:
  "dropWhile isWhiteSpace s = trim s @ rev (takeWhile isWhiteSpace (rev (dropWhile isWhiteSpace s)))"
proof -
  let ?t = "dropWhile isWhiteSpace s"
  have "trim s @ rev (takeWhile isWhiteSpace (rev ?t))
      = rev (takeWhile isWhiteSpace (rev ?t) @ dropWhile isWhiteSpace (rev ?t))"
    unfolding trim_def by (rule rev_append [symmetric])
  also have "\<dots> = ?t"
    by simp
  finally show ?thesis by simp
qed

lemma trim_ends:
  assumes "trim s \<noteq> []"
  shows "\<not> isWhiteSpace (hd (trim s))" and "\<not> isWhiteSpace (last (trim s))"
proof -
  let ?t = "dropWhile isWhiteSpace s"
  have t: "?t \<noteq> []"
  proof
    assume a: "?t = []"
    show False using assms unfolding trim_def a by simp
  qed
  have "hd ?t = hd (trim s)"
    using assms by (subst trim_prefix_of_dropWhile) simp
  moreover have "\<not> isWhiteSpace (hd ?t)"
    using t by (rule hd_dropWhile)
  ultimately show "\<not> isWhiteSpace (hd (trim s))" by simp
  have d: "dropWhile isWhiteSpace (rev ?t) \<noteq> []"
    using assms by (simp add: trim_def)
  have "last (trim s) = hd (dropWhile isWhiteSpace (rev ?t))"
    using d by (simp add: trim_def last_rev)
  with hd_dropWhile [OF d] show "\<not> isWhiteSpace (last (trim s))" by simp
qed

lemma trim_id:
  assumes "s = [] \<or> (\<not> isWhiteSpace (hd s) \<and> \<not> isWhiteSpace (last s))"
  shows "trim s = s"
proof (cases s)
  case Nil
  then show ?thesis by (simp add: trim_def)
next
  case (Cons c cs)
  with assms have h: "\<not> isWhiteSpace c" and l: "\<not> isWhiteSpace (last s)" by auto
  from h Cons have 1: "dropWhile isWhiteSpace s = s" by simp
  from Cons have "rev s \<noteq> []" by simp
  then obtain d ds where r: "rev s = d # ds" by (cases "rev s") auto
  have "hd (rev s) = last s" using Cons by (simp add: hd_rev)
  with r l have "\<not> isWhiteSpace d" by simp
  with r have "dropWhile isWhiteSpace (rev s) = rev s" by simp
  with 1 show ?thesis by (simp add: trim_def)
qed

lemma trim_trim: "trim (trim s) = trim s"
  using trim_ends [of s] by (intro trim_id) auto

lemma set_trim: "set (trim s) \<subseteq> set s"
proof -
  have "set (dropWhile isWhiteSpace s)
      = set (trim s @ rev (takeWhile isWhiteSpace (rev (dropWhile isWhiteSpace s))))"
    by (rule arg_cong [OF trim_prefix_of_dropWhile])
  then have "set (trim s) \<subseteq> set (dropWhile isWhiteSpace s)"
    by simp
  also have "\<dots> \<subseteq> set s"
    by (auto dest: set_dropWhileD)
  finally show ?thesis .
qed

lemma tidy_tl: "tidy (c # cs) \<Longrightarrow> tidy cs"
  by (cases cs) auto

lemma tidy_dropWhile: "tidy s \<Longrightarrow> tidy (dropWhile P s)"
  by (induction s) (auto dest: tidy_tl)

lemma tidy_prefix: "tidy (xs @ ys) \<Longrightarrow> tidy xs"
proof (induction xs rule: tidy.induct)
  case 1
  then show ?case by simp
next
  case (2 c)
  then show ?case by (cases ys) auto
next
  case (3 c d cs)
  then show ?case by auto
qed

lemma tidy_trim: "tidy s \<Longrightarrow> tidy (trim s)"
proof -
  assume "tidy s"
  then have "tidy (dropWhile isWhiteSpace s)" by (rule tidy_dropWhile)
  then have "tidy (trim s @ rev (takeWhile isWhiteSpace (rev (dropWhile isWhiteSpace s))))"
    by (simp only: trim_prefix_of_dropWhile [symmetric])
  then show ?thesis by (rule tidy_prefix)
qed

lemma collapseSpaces_tidy: "tidy (collapseSpaces s)"
proof (induction s rule: collapseSpaces.induct)
  case 1
  then show ?case by simp
next
  case (2 c cs)
  show ?case
  proof (cases "isWhiteSpace c")
    case True
    let ?r = "dropWhile isWhiteSpace cs"
    have ih: "tidy (collapseSpaces ?r)" using 2(1) True by simp
    have e: "collapseSpaces (c # cs) = 0x20 # collapseSpaces ?r"
      using True by simp
    show ?thesis
    proof (cases ?r)
      case Nil
      show ?thesis unfolding e Nil by simp
    next
      case (Cons d ds)
      then have "\<not> isWhiteSpace d"
        using hd_dropWhile [of isWhiteSpace cs] by simp
      with ih show ?thesis unfolding e Cons by simp
    qed
  next
    case False
    then have ih: "tidy (collapseSpaces cs)" using 2(2) by simp
    with False show ?thesis
      by (cases "collapseSpaces cs") auto
  qed
qed

lemma collapseSpaces_id: "tidy s \<Longrightarrow> collapseSpaces s = s"
proof (induction s rule: tidy.induct)
  case 1
  then show ?case by simp
next
  case (2 c)
  then show ?case by simp
next
  case (3 c d cs)
  then show ?case by auto
qed

lemma set_collapseSpaces: "set (collapseSpaces s) \<subseteq> insert 0x20 (set s)"
proof (induction s rule: collapseSpaces.induct)
  case 1
  then show ?case by simp
next
  case (2 c cs)
  then show ?case
    by (auto dest: set_dropWhileD)
qed


lemma fold_chain_folded:
  "folded c \<or> c = 0x621"
  if "c \<in> set (foldWaw (foldTaa (foldYaa (foldAlef s))))"
  using that by (auto simp: foldWaw_def foldTaa_def foldYaa_def foldAlef_def folded_def)

lemma folded_normalizeText: "c \<in> set (normalizeText s) \<Longrightarrow> folded c"
proof -
  assume "c \<in> set (normalizeText s)"
  then have "c \<in> set (collapseSpaces (dropHamza (foldWaw (foldTaa (foldYaa (foldAlef s))))))"
    unfolding normalizeText_def using set_trim by blast
  then have "c = 0x20 \<or> c \<in> set (dropHamza (foldWaw (foldTaa (foldYaa (foldAlef s)))))"
    using set_collapseSpaces by blast
  then show ?thesis
  proof
    assume "c = 0x20"
    then show ?thesis by (simp add: folded_def)
  next
    assume "c \<in> set (dropHamza (foldWaw (foldTaa (foldYaa (foldAlef s)))))"
    then have "c \<in> set (foldWaw (foldTaa (foldYaa (foldAlef s))))" and "c \<noteq> 0x621"
      by (simp_all add: dropHamza_def)
    then show ?thesis using fold_chain_folded by blast
  qed
qed

lemma fold_chain_id:
  assumes "\<forall>c \<in> set s. folded c"
  shows "dropHamza (foldWaw (foldTaa (foldYaa (foldAlef s)))) = s"
proof -
  have 1: "foldAlef s = s"
    unfolding foldAlef_def using assms by (intro map_idI) (auto simp: folded_def)
  have 2: "foldYaa s = s"
    unfolding foldYaa_def using assms by (intro map_idI) (auto simp: folded_def)
  have 3: "foldTaa s = s"
    unfolding foldTaa_def using assms by (intro map_idI) (auto simp: folded_def)
  have 4: "foldWaw s = s"
    unfolding foldWaw_def using assms by (intro map_idI) (auto simp: folded_def)
  have 5: "dropHamza s = s"
    unfolding dropHamza_def using assms by (auto simp: folded_def filter_id_conv)
  show ?thesis by (simp only: 1 2 3 4 5)
qed

lemma tidy_normalizeText: "tidy (normalizeText s)"
  unfolding normalizeText_def by (intro tidy_trim collapseSpaces_tidy)

text \<open>
  C10. \<open>normalizeText\<close> is idempotent: for every string \<open>s\<close>,
  \<open>normalizeText(normalizeText(s))\<close> equals \<open>normalizeText(s)\<close>; every code unit the
  folding rules and the white-space collapse produce is a fixed point of a second
  application.
\<close>

theorem normalizeText_idempotent: "normalizeText (normalizeText s) = normalizeText s"
proof -
  let ?r = "normalizeText s"
  have "dropHamza (foldWaw (foldTaa (foldYaa (foldAlef ?r)))) = ?r"
    by (rule fold_chain_id) (blast intro: folded_normalizeText)
  then have "normalizeText ?r = trim (collapseSpaces ?r)"
    by (simp add: normalizeText_def [of ?r])
  also have "\<dots> = trim ?r"
    by (simp add: collapseSpaces_id tidy_normalizeText)
  also have "\<dots> = ?r"
    unfolding normalizeText_def [of s] by (rule trim_trim)
  finally show ?thesis .
qed

subsection \<open>Candidate caps\<close>

text \<open>
  C6. For every input token, \<open>transliterateToken\<close> returns at most 60 candidate
  strings, and for every query \<open>buildArabicCandidatesFromEnglish\<close> returns at most 100
  combined candidate strings; neither cap is exceeded for any input (and any tables).
\<close>

theorem candidate_caps:
  "length (transliterateToken token digits digraphs singles) \<le> 60
   \<and> length (buildArabicCandidatesFromEnglish englishQuery) \<le> 100"
  by (simp add: transliterateToken_def buildArabicCandidatesFromEnglish_def Let_def)

subsection \<open>Search\<close>

lemma trim_Nil_iff: "trim s = [] \<longleftrightarrow> (\<forall>c \<in> set s. isWhiteSpace c)"
proof
  assume "trim s = []"
  then have all: "\<forall>x \<in> set (dropWhile isWhiteSpace s). isWhiteSpace x"
    by (simp add: trim_def)
  have "dropWhile isWhiteSpace s = []"
  proof (rule ccontr)
    assume n: "dropWhile isWhiteSpace s \<noteq> []"
    then have "\<not> isWhiteSpace (hd (dropWhile isWhiteSpace s))"
      by (rule hd_dropWhile)
    moreover have "hd (dropWhile isWhiteSpace s) \<in> set (dropWhile isWhiteSpace s)"
      using n by (rule hd_in_set)
    ultimately show False using all by blast
  qed
  then show "\<forall>c \<in> set s. isWhiteSpace c"
    by simp
next
  assume "\<forall>c \<in> set s. isWhiteSpace c"
  then have d: "dropWhile isWhiteSpace s = []"
    by simp
  show "trim s = []"
    unfolding trim_def d by simp
qed

lemma proto_not_arabic: "key \<in> set objectPrototypeKeys \<Longrightarrow> \<not> isArabic key"
proof -
  have "list_all (\<lambda>k. \<not> isArabic k) objectPrototypeKeys"
    by code_simp
  then show "key \<in> set objectPrototypeKeys \<Longrightarrow> \<not> isArabic key"
    by (simp add: list_all_iff)
qed

lemma dictionaryPath_no_throw:
  "isArabic arabicName \<Longrightarrow> \<exists>r. dictionaryPath query arabicName = Inr r"
  using proto_not_arabic [of arabicName]
  by (auto simp: dictionaryPath_def getProp_def split: option.splits)

lemma getTransliterationScore_no_throw:
  assumes "query \<notin> set objectPrototypeKeys"
  shows "\<exists>s. getTransliterationScore query arabicName = Inr s"
proof -
  have 1: "\<exists>r. crossScriptBlock query arabicName = Inr r"
    using dictionaryPath_no_throw [of arabicName query]
    by (auto simp: crossScriptBlock_def split: sum.splits option.splits)
  have 2: "\<exists>r. reverseBlock query arabicName = Inr r"
    using assms by (auto simp: reverseBlock_def getProp_def split: option.splits)
  from 1 2 show ?thesis
    by (auto simp: getTransliterationScore_def split: sum.splits option.splits)
qed

lemma calculateMatchScore_no_throw:
  assumes "query \<notin> set objectPrototypeKeys"
  shows "\<exists>s. calculateMatchScore query p = Inr s"
  using getTransliterationScore_no_throw [OF assms, of "name p"]
  by (auto simp: calculateMatchScore_def Let_def)

lemma calculateMatchScore_ge:
  assumes "calculateMatchScore query p = Inr s" "getTransliterationScore query (name p) = Inr t"
  shows "t \<le> s"
  using assms by (auto simp: calculateMatchScore_def Let_def)

lemma searchLoop_members:
  assumes "\<forall>p \<in> set roster. \<exists>s. calculateMatchScore q p = Inr s"
  shows "\<exists>rs. searchLoop q roster acc = Inr rs \<and> set acc \<subseteq> set rs \<and>
           (\<forall>p \<in> set roster. \<forall>s. calculateMatchScore q p = Inr s \<longrightarrow> 0 < s \<longrightarrow>
              \<lparr>person = p, score = s, matchType = getMatchType q p\<rparr> \<in> set rs)"
  using assms
proof (induction roster arbitrary: acc)
  case Nil
  then show ?case by simp
next
  case (Cons p roster)
  from Cons.prems obtain s where s: "calculateMatchScore q p = Inr s" by auto
  let ?acc = "if 0 < s then acc @ [\<lparr>person = p, score = s, matchType = getMatchType q p\<rparr>] else acc"
  from Cons.prems have "\<forall>p \<in> set roster. \<exists>s. calculateMatchScore q p = Inr s" by simp
  from Cons.IH [OF this, of ?acc] obtain rs where
    rs: "searchLoop q roster ?acc = Inr rs" "set ?acc \<subseteq> set rs"
      "\<forall>p \<in> set roster. \<forall>s. calculateMatchScore q p = Inr s \<longrightarrow> 0 < s \<longrightarrow>
              \<lparr>person = p, score = s, matchType = getMatchType q p\<rparr> \<in> set rs"
    by blast
  have "searchLoop q (p # roster) acc = Inr rs"
    using s rs(1) by simp
  moreover have "set acc \<subseteq> set rs"
    using rs(2) by (auto split: if_splits)
  moreover have "0 < s \<Longrightarrow> \<lparr>person = p, score = s, matchType = getMatchType q p\<rparr> \<in> set rs"
    using rs(2) by auto
  ultimately show ?case
    using s rs(3) by auto
qed

text \<open>
  C1, as stated, fails: \<open>search\<close> has no minimum query length. The one-character
  query \<open>"a"\<close> against a person named \<open>Ali\<close> returns that person with score 0.9 (the
  query is contained in the name).
\<close>

theorem search_one_char_counterexample:
  "search (js ''a'') [personAli]
     = Inr [\<lparr>person = personAli, score = 0.9, matchType = js ''English Match''\<rparr>]
   \<and> search (js ''a'') [personAli] \<noteq> Inr []"
  by code_simp

text \<open>
  C1, amended. For every people array, \<open>search\<close> called with an empty query or with a
  query made of white space only returns an empty result sequence and does not throw.
  (\<open>search\<close> enforces no minimum length: a shorter-than-two query that is not blank is
  matched like any other.)
\<close>

theorem search_blank_query:
  "\<forall>c \<in> set query. isWhiteSpace c \<Longrightarrow> search query roster = Inr []"
  by (simp add: search_def trim_Nil_iff)

theorem search_blank_query_witness:
  "search (js ''  '') [personAli] = Inr []"
proof -
  have h: "\<forall>c \<in> set (js ''  ''). isWhiteSpace c"
    by (simp add: js_def isWhiteSpace_def)
  show ?thesis
    by (rule search_blank_query [OF h])
qed

text \<open>
  C8. For the query \<open>"Ahmed"\<close> and any people array containing a person whose primary
  name is the Arabic name for Ahmed, \<open>search\<close> returns that person with a score
  strictly greater than 0.6 and the cross-script match type of a Latin query against an
  Arabic name.
\<close>

theorem search_Ahmed:
  assumes "p \<in> set roster" and "name p = ahmadArabic"
  shows "\<exists>results r. search (js ''Ahmed'') roster = Inr results \<and> r \<in> set results \<and>
           person r = p \<and> 0.6 < score r \<and>
           matchType r = js ''English to Arabic Transliteration''"
proof -
  let ?q = "js ''ahmed''"
  have q: "normalizeText (toLowerCase (trim (js ''Ahmed''))) = ?q"
    by code_simp
  have nb: "js ''Ahmed'' \<noteq> [] \<and> trim (js ''Ahmed'') \<noteq> []"
    by code_simp
  have np: "?q \<notin> set objectPrototypeKeys"
    by code_simp
  have t: "getTransliterationScore ?q ahmadArabic = Inr 1"
    by code_simp
  have mt: "getMatchType ?q p = js ''English to Arabic Transliteration''"
  proof -
    have "isArabic ahmadArabic \<and> \<not> isArabic ?q" by code_simp
    then show ?thesis
      by (simp add: getMatchType_def assms(2))
  qed
  obtain s where s: "calculateMatchScore ?q p = Inr s"
    using calculateMatchScore_no_throw [OF np] by blast
  have "1 \<le> s"
    using calculateMatchScore_ge [OF s] t assms(2) by simp
  obtain rs where rs: "searchLoop ?q roster [] = Inr rs"
    and mem: "\<forall>p \<in> set roster. \<forall>s. calculateMatchScore ?q p = Inr s \<longrightarrow> 0 < s \<longrightarrow>
              \<lparr>person = p, score = s, matchType = getMatchType ?q p\<rparr> \<in> set rs"
    using searchLoop_members [of roster ?q "[]"] calculateMatchScore_no_throw [OF np] by blast
  let ?r = "\<lparr>person = p, score = s, matchType = getMatchType ?q p\<rparr>"
  have "?r \<in> set rs"
    using mem assms(1) s \<open>1 \<le> s\<close> by auto
  then have "?r \<in> set (sort_key (\<lambda>r. - score r) rs)"
    by simp
  moreover have "search (js ''Ahmed'') roster = Inr (sort_key (\<lambda>r. - score r) rs)"
    using nb by (simp add: search_def q rs)
  ultimately show ?thesis
    using \<open>1 \<le> s\<close> mt by (intro exI [of _ "sort_key (\<lambda>r. - score r) rs"] exI [of _ ?r]) auto
qed

theorem search_Ahmed_witness:
  "\<exists>results r. search (js ''Ahmed'')
       [personAli, \<lparr>person_id = js ''P-000002'', name = ahmadArabic, altNames = None,
          fatherId = None, motherId = None, spouseIds = None\<rparr>] = Inr results \<and>
     r \<in> set results \<and>
     person r = \<lparr>person_id = js ''P-000002'', name = ahmadArabic, altNames = None,
          fatherId = None, motherId = None, spouseIds = None\<rparr> \<and>
     0.6 < score r \<and> matchType r = js ''English to Arabic Transliteration''"
  by (rule search_Ahmed) simp_all

subsection \<open>Trimming before normalising\<close>

lemma trim_rtrim: "trim s = rtrim (dropWhile isWhiteSpace s)"
  by (simp add: trim_def rtrim_def)

lemma rtrim_Nil [simp]: "rtrim [] = []"
  by (simp add: rtrim_def)

lemma rtrim_Cons:
  "rtrim (x # xs) = (if rtrim xs = [] \<and> isWhiteSpace x then [] else x # rtrim xs)"
  by (auto simp: rtrim_def dropWhile_append)

lemma ltrim_rtrim_commute:
  "dropWhile isWhiteSpace (rtrim s) = rtrim (dropWhile isWhiteSpace s)"
proof (induction s)
  case Nil
  then show ?case by simp
next
  case (Cons c cs)
  show ?case
  proof (cases "isWhiteSpace c")
    case True
    then have rhs: "rtrim (dropWhile isWhiteSpace (c # cs)) = rtrim (dropWhile isWhiteSpace cs)"
      by simp
    show ?thesis
    proof (cases "rtrim cs = []")
      case True
      with \<open>isWhiteSpace c\<close> have "rtrim (c # cs) = []"
        by (simp add: rtrim_Cons)
      moreover have "rtrim (dropWhile isWhiteSpace cs) = []"
        using Cons True by simp
      ultimately show ?thesis
        unfolding rhs by simp
    next
      case False
      with \<open>isWhiteSpace c\<close> have "rtrim (c # cs) = c # rtrim cs"
        by (simp add: rtrim_Cons)
      with \<open>isWhiteSpace c\<close> Cons show ?thesis
        unfolding rhs by simp
    qed
  next
    case False
    then show ?thesis
      by (simp add: rtrim_Cons)
  qed
qed

lemma trim_alt: "trim s = dropWhile isWhiteSpace (rtrim s)"
  by (simp only: trim_rtrim ltrim_rtrim_commute)

lemma collapseSpaces_white_append:
  assumes "a \<noteq> []" "\<forall>c \<in> set a. isWhiteSpace c"
  shows "collapseSpaces (a @ u) = 0x20 # collapseSpaces (dropWhile isWhiteSpace u)"
proof -
  from assms obtain c a' where a: "a = c # a'" by (cases a) auto
  with assms have "isWhiteSpace c" and "\<forall>x \<in> set a'. isWhiteSpace x" by auto
  then have "dropWhile isWhiteSpace (a' @ u) = dropWhile isWhiteSpace u"
    by (simp add: dropWhile_append2)
  with \<open>isWhiteSpace c\<close> show ?thesis
    unfolding a by simp
qed

lemma ltrim_collapseSpaces:
  "dropWhile isWhiteSpace (collapseSpaces (dropWhile isWhiteSpace u))
     = dropWhile isWhiteSpace (collapseSpaces u)"
proof (cases u)
  case Nil
  then show ?thesis by simp
next
  case (Cons c cs)
  have sp: "isWhiteSpace 0x20" by (simp add: isWhiteSpace_def)
  show ?thesis
    unfolding Cons using sp by simp
qed

lemma trim_collapse_left:
  assumes "\<forall>c \<in> set a. isWhiteSpace c"
  shows "trim (collapseSpaces (a @ u)) = trim (collapseSpaces u)"
proof (cases "a = []")
  case True
  then show ?thesis by simp
next
  case False
  have sp: "isWhiteSpace 0x20" by (simp add: isWhiteSpace_def)
  have "dropWhile isWhiteSpace (collapseSpaces (a @ u))
      = dropWhile isWhiteSpace (collapseSpaces (dropWhile isWhiteSpace u))"
    unfolding collapseSpaces_white_append [OF False assms] using sp by simp
  also have "\<dots> = dropWhile isWhiteSpace (collapseSpaces u)"
    by (rule ltrim_collapseSpaces)
  finally show ?thesis
    by (simp only: trim_rtrim)
qed

lemma rtrim_collapse_right:
  assumes "\<forall>c \<in> set b. isWhiteSpace c"
  shows "rtrim (collapseSpaces (z @ b))
       = rtrim (collapseSpaces z)"
proof (induction z rule: collapseSpaces.induct)
  case 1
  have sp: "isWhiteSpace 0x20" by (simp add: isWhiteSpace_def)
  show ?case
  proof (cases "b = []")
    case True
    then show ?thesis by simp
  next
    case False
    have "collapseSpaces (b @ []) = 0x20 # collapseSpaces (dropWhile isWhiteSpace [])"
      by (rule collapseSpaces_white_append [OF False assms])
    then show ?thesis using sp by (simp add: rtrim_Cons)
  qed
next
  case (2 c cs)
  show ?case
  proof (cases "isWhiteSpace c")
    case True
    note ws = True
    show ?thesis
    proof (cases "\<forall>x \<in> set cs. isWhiteSpace x")
      case True
      then have "dropWhile isWhiteSpace (cs @ b) = []" and "dropWhile isWhiteSpace cs = []"
        using assms by simp_all
      then have "collapseSpaces ((c # cs) @ b) = [0x20]" and "collapseSpaces (c # cs) = [0x20]"
        using ws by (simp_all del: dropWhile_eq_Nil_conv)
      then show ?thesis by (simp only:)
    next
      case False
      then have d: "dropWhile isWhiteSpace (cs @ b) = dropWhile isWhiteSpace cs @ b"
        by (auto simp: dropWhile_append1)
      have ih: "rtrim (collapseSpaces (dropWhile isWhiteSpace cs @ b))
          = rtrim (collapseSpaces (dropWhile isWhiteSpace cs))"
        using 2(1) ws by simp
      have l: "collapseSpaces ((c # cs) @ b) = 0x20 # collapseSpaces (dropWhile isWhiteSpace cs @ b)"
        using ws d by simp
      have r: "collapseSpaces (c # cs) = 0x20 # collapseSpaces (dropWhile isWhiteSpace cs)"
        using ws by simp
      show ?thesis
        unfolding l r by (simp only: rtrim_Cons ih)
    qed
  next
    case False
    have ih: "rtrim (collapseSpaces (cs @ b))
        = rtrim (collapseSpaces cs)"
      using 2(2) False by simp
    have l: "collapseSpaces ((c # cs) @ b) = c # collapseSpaces (cs @ b)"
      using False by simp
    have r: "collapseSpaces (c # cs) = c # collapseSpaces cs"
      using False by simp
    show ?thesis
      unfolding l r by (simp only: rtrim_Cons ih)
  qed
qed

lemma trim_collapse_right:
  assumes "\<forall>c \<in> set b. isWhiteSpace c"
  shows "trim (collapseSpaces (z @ b)) = trim (collapseSpaces z)"
  by (simp only: trim_alt rtrim_collapse_right [OF assms])

lemma white_lower: "isWhiteSpace (if 0x41 \<le> c \<and> c \<le> 0x5A then c + 0x20 else c) = isWhiteSpace c"
  by (auto simp: isWhiteSpace_def)

lemma toLowerCase_dropWhile:
  "toLowerCase (dropWhile isWhiteSpace s) = dropWhile isWhiteSpace (toLowerCase s)"
  by (simp add: toLowerCase_def dropWhile_map comp_def white_lower)

lemma toLowerCase_trim: "toLowerCase (trim s) = trim (toLowerCase s)"
proof -
  have r: "toLowerCase (rev t) = rev (toLowerCase t)" for t
    by (simp add: toLowerCase_def rev_map)
  show ?thesis
    unfolding trim_def
    by (simp only: r toLowerCase_dropWhile r [symmetric])
qed

lemma white_folded: "isWhiteSpace c \<Longrightarrow> folded c"
  by (auto simp: isWhiteSpace_def folded_def)

lemma trim_decompose:
  "\<exists>a b. s = a @ trim s @ b \<and> (\<forall>c \<in> set a. isWhiteSpace c) \<and> (\<forall>c \<in> set b. isWhiteSpace c)"
proof -
  let ?a = "takeWhile isWhiteSpace s"
  let ?b = "rev (takeWhile isWhiteSpace (rev (dropWhile isWhiteSpace s)))"
  have "s = ?a @ dropWhile isWhiteSpace s" by simp
  also have "dropWhile isWhiteSpace s = trim s @ ?b" by (rule trim_prefix_of_dropWhile)
  finally have "s = ?a @ trim s @ ?b" .
  moreover have "\<forall>c \<in> set ?a. isWhiteSpace c"
    by (auto dest: set_takeWhileD)
  moreover have "\<forall>c \<in> set ?b. isWhiteSpace c"
    by (auto dest: set_takeWhileD)
  ultimately show ?thesis by blast
qed

lemma fold_chain_append:
  "dropHamza (foldWaw (foldTaa (foldYaa (foldAlef (xs @ ys)))))
     = dropHamza (foldWaw (foldTaa (foldYaa (foldAlef xs))))
       @ dropHamza (foldWaw (foldTaa (foldYaa (foldAlef ys))))"
  by (simp add: dropHamza_def foldWaw_def foldTaa_def foldYaa_def foldAlef_def)

lemma normalizeText_trim: "normalizeText (trim s) = normalizeText s"
proof -
  obtain a b where s: "s = a @ trim s @ b"
    and a: "\<forall>c \<in> set a. isWhiteSpace c" and b: "\<forall>c \<in> set b. isWhiteSpace c"
    using trim_decompose by blast
  let ?F = "\<lambda>t. dropHamza (foldWaw (foldTaa (foldYaa (foldAlef t))))"
  have fa: "?F a = a" using a by (intro fold_chain_id) (blast intro: white_folded)
  have fb: "?F b = b" using b by (intro fold_chain_id) (blast intro: white_folded)
  have "?F s = ?F (a @ trim s @ b)"
    using s by simp
  also have "\<dots> = a @ ?F (trim s) @ b"
    by (simp only: fold_chain_append fa fb)
  finally have "normalizeText s = trim (collapseSpaces (a @ ?F (trim s) @ b))"
    by (simp only: normalizeText_def)
  also have "\<dots> = trim (collapseSpaces (?F (trim s) @ b))"
    by (rule trim_collapse_left [OF a])
  also have "\<dots> = trim (collapseSpaces (?F (trim s)))"
    by (rule trim_collapse_right [OF b])
  also have "\<dots> = normalizeText (trim s)"
    by (simp only: normalizeText_def)
  finally show ?thesis by simp
qed

lemma normalizedQuery_trim:
  "normalizeText (toLowerCase (trim query)) = normalizeText (toLowerCase query)"
  by (simp only: toLowerCase_trim normalizeText_trim)

subsection \<open>Bounds on the scores\<close>

lemma getTextSimilarity_le_1: "getTextSimilarity a b \<le> 1"
  by (simp add: getTextSimilarity_def Let_def)

lemma dictLoop_le_1: "dictLoop q vs = Some s \<Longrightarrow> s \<le> 1"
  using getTextSimilarity_le_1
  by (induction vs) (auto simp: Let_def split: if_splits)

lemma candidateLoop_le_1: "candidateLoop n cs = Some s \<Longrightarrow> s \<le> 1"
  using getTextSimilarity_le_1
  by (induction cs) (auto simp: Let_def split: if_splits)

lemma reverseLoop_le_1: "reverseLoop n vs = Some s \<Longrightarrow> s \<le> 1"
  using getTextSimilarity_le_1
  by (induction vs) (auto simp: Let_def split: if_splits)

lemma partialInner_le_1: "partialInner q n a vs = Some s \<Longrightarrow> s \<le> 1"
proof (induction vs)
  case Nil
  then show ?case by simp
next
  case (Cons v vs)
  have "getTextSimilarity a n * 0.9 \<le> 1"
    using getTextSimilarity_le_1 [of a n] by simp
  with Cons show ?case
    by (auto simp: Let_def split: if_splits)
qed

lemma partialOuter_le_1: "partialOuter q n es = Some s \<Longrightarrow> s \<le> 1"
  by (induction es) (auto split: option.splits dest: partialInner_le_1)

lemma getTransliterationScore_le_1:
  assumes "getTransliterationScore q n = Inr s"
  shows "s \<le> 1"
proof -
  have 1: "crossScriptBlock q n = Inr (Some t) \<Longrightarrow> t \<le> 1" for t
    by (auto simp: crossScriptBlock_def dictionaryPath_def generativePath_def
        split: if_splits sum.splits option.splits propval.splits
        dest: dictLoop_le_1 candidateLoop_le_1)
  have 2: "reverseBlock q n = Inr (Some t) \<Longrightarrow> t \<le> 1" for t
    by (auto simp: reverseBlock_def split: if_splits propval.splits dest: reverseLoop_le_1)
  from assms 1 2 show ?thesis
    by (auto simp: getTransliterationScore_def split: sum.splits option.splits
        dest: partialOuter_le_1)
qed

lemma altNamesLoop_le_1: "m \<le> 1 \<Longrightarrow> altNamesLoop q alts m \<le> 1"
proof (induction alts arbitrary: m)
  case Nil
  then show ?case by simp
next
  case (Cons a alts)
  have "getTextSimilarity q (normalizeText (toLowerCase a)) * 0.8 \<le> 1"
    using getTextSimilarity_le_1 [of q "normalizeText (toLowerCase a)"] by simp
  with Cons.prems show ?case
    by (auto simp: Let_def intro!: Cons.IH)
qed

lemma altNamesLoop_ge: "m \<le> altNamesLoop q alts m"
proof (induction alts arbitrary: m)
  case Nil
  then show ?case by simp
next
  case (Cons a alts)
  show ?case
    by (auto simp: Let_def intro: order_trans [OF _ Cons.IH])
qed

subsection \<open>Matching through normalisation and across scripts\<close>

text \<open>
  The matcher normalises both sides: \<open>search\<close> the trimmed and lowercased query,
  \<open>calculateMatchScore\<close> the lowercased name. With the lowercasing of this model (the
  host's on ASCII and Arabic text), a query and a name with the same normal form get the
  similarity 1, and the person's overall score is 1 unless the later dictionary read
  throws, which it does only for a normalised query that is the name of a member of
  \<open>Object.prototype\<close>.
\<close>

lemma nameScore_of_normalized_equal:
  assumes "normalizeText (toLowerCase x) = normalizeText (toLowerCase (name p))"
  shows "nameScore (normalizeText (toLowerCase (trim x))) p = 1
     \<and> (calculateMatchScore (normalizeText (toLowerCase (trim x))) p = Inr 1
        \<or> (normalizeText (toLowerCase (trim x)) \<in> set objectPrototypeKeys
           \<and> calculateMatchScore (normalizeText (toLowerCase (trim x))) p = Inl TypeError))"
proof -
  let ?q = "normalizeText (toLowerCase (trim x))"
  have q: "?q = normalizeText (toLowerCase (name p))"
    using assms by (simp only: normalizedQuery_trim)
  have n: "nameScore ?q p = 1"
    unfolding nameScore_def q by (simp add: getTextSimilarity_def)
  have rest: "calculateMatchScore ?q p = Inr 1
        \<or> (?q \<in> set objectPrototypeKeys \<and> calculateMatchScore ?q p = Inl TypeError)"
  proof (cases "getTransliterationScore ?q (name p)")
    case (Inl e)
    then have "?q \<in> set objectPrototypeKeys"
      using getTransliterationScore_no_throw [of ?q "name p"] by auto
    moreover have "calculateMatchScore ?q p = Inl TypeError"
      using Inl by (cases e) (simp add: calculateMatchScore_def Let_def)
    ultimately show ?thesis by blast
  next
    case (Inr t)
    then have t: "t \<le> 1" by (rule getTransliterationScore_le_1)
    define M where "M = (case altNames p of
        Some alts \<Rightarrow> if length alts > 0 then altNamesLoop ?q alts 1 else 1 | None \<Rightarrow> 1)"
    have "M \<le> 1" and "1 \<le> M"
      using altNamesLoop_le_1 [of 1 ?q] altNamesLoop_ge [of 1 ?q]
      by (auto simp: M_def split: option.splits)
    then have m2: "M = 1" by simp
    have "calculateMatchScore ?q p = Inr (max M t)"
      using Inr n by (cases "altNames p") (simp_all add: calculateMatchScore_def Let_def M_def)
    with m2 t show ?thesis by (simp add: max_def)
  qed
  from n rest show ?thesis by blast
qed

text \<open>
  The example of the specification: the Arabic name for Ahmed written with hamza above
  the alef, searched in a roster that has it with a bare alef, is found with score 1.
\<close>

lemma search_hamza_alef:
  "search ahmadArabic [personAhmadBare]
     = Inr [\<lparr>person = personAhmadBare, score = 1, matchType = js ''Exact Arabic Match''\<rparr>]"
  by code_simp

text \<open>
  C7. For all strings \<open>x\<close> and \<open>y\<close> whose lowercased forms \<open>normalizeText\<close> maps to
  the same string, the similarity the matcher computes between them is exactly 1,
  because normalisation is applied to both sides before the comparison. The code breaks
  this: the query \<open>Constructor\<close> and a person named \<open>constructor\<close> have the same normal
  form, and the name similarity of line 103 is 1, but \<open>calculateMatchScore\<close> then reads
  \<open>this.englishToArabic["constructor"]\<close>, finds \<open>Object.prototype.constructor\<close>, iterates
  over it and throws a TypeError, which \<open>search\<close> lets through: no similarity and no
  result comes back.
\<close>

theorem search_normalized_equal_throws:
  "normalizeText (toLowerCase (js ''Constructor''))
     = normalizeText (toLowerCase (name personConstructor))
   \<and> nameScore (normalizeText (toLowerCase (trim (js ''Constructor'')))) personConstructor = 1
   \<and> calculateMatchScore (normalizeText (toLowerCase (trim (js ''Constructor''))))
       personConstructor = Inl TypeError
   \<and> search (js ''Constructor'') [personConstructor] = Inl TypeError"
  by code_simp

text \<open>
  The throw does not depend on the person: any roster makes \<open>search\<close> throw for this
  query.
\<close>

lemma search_prototype_member_throws:
  "search (js ''constructor'') [personAli] = Inl TypeError"
  by code_simp

text \<open>
  C2, as stated, fails: for the Latin query \<open>"nor"\<close> and the Arabic name Noor the
  dictionary path returns at its first variant, \<open>"noor"\<close>, with similarity 3/4, and the
  generative path, whose first candidate is the name itself, would score 1; the function
  returns 3/4, not the maximum.
\<close>

theorem first_hit_not_maximum_counterexample:
  "isArabic noorArabic \<and> \<not> isArabic (js ''nor'')
   \<and> getTransliterationScore (js ''nor'') noorArabic = Inr (3 / 4)
   \<and> dictionaryScore (js ''nor'') noorArabic = 3 / 4
   \<and> generativeScore (js ''nor'') noorArabic = 1
   \<and> getTransliterationScore (js ''nor'') noorArabic
       \<noteq> Inr (max (dictionaryScore (js ''nor'') noorArabic) (generativeScore (js ''nor'') noorArabic))"
  by code_simp

text \<open>
  C2, amended. For every Latin-script query and Arabic-script candidate name for which
  one of the two paths returns a score, the paths run in sequence and the first hit wins:
  \<open>getTransliterationScore\<close> returns the dictionary-path score when the dictionary path
  returns one, and otherwise the generative-path score. The returned score is at most
  the maximum of the two path scores.
\<close>

theorem first_hit_wins:
  assumes "isArabic arabicName" and "\<not> isArabic query"
    and "dictionaryPath query arabicName \<noteq> Inr None \<or> generativePath query arabicName \<noteq> None"
  shows "getTransliterationScore query arabicName
       = Inr (if dictionaryPath query arabicName \<noteq> Inr None
              then dictionaryScore query arabicName else generativeScore query arabicName)
     \<and> (\<forall>s. getTransliterationScore query arabicName = Inr s \<longrightarrow>
          s \<le> max (dictionaryScore query arabicName) (generativeScore query arabicName))"
proof -
  obtain r where r: "dictionaryPath query arabicName = Inr r"
    using dictionaryPath_no_throw [OF assms(1)] by blast
  have e: "getTransliterationScore query arabicName
       = Inr (if dictionaryPath query arabicName \<noteq> Inr None
              then dictionaryScore query arabicName else generativeScore query arabicName)"
    using assms r
    by (cases r)
      (auto simp: getTransliterationScore_def crossScriptBlock_def dictionaryScore_def
        generativeScore_def split: option.splits)
  show ?thesis
    unfolding e by auto
qed

theorem first_hit_wins_witness:
  "isArabic noorArabic \<and> \<not> isArabic (js ''nor'')
   \<and> dictionaryPath (js ''nor'') noorArabic \<noteq> Inr None
   \<and> getTransliterationScore (js ''nor'') noorArabic = Inr (dictionaryScore (js ''nor'') noorArabic)"
proof -
  have a: "isArabic noorArabic" and b: "\<not> isArabic (js ''nor'')"
    and c: "dictionaryPath (js ''nor'') noorArabic \<noteq> Inr None"
    by code_simp+
  from first_hit_wins [OF a b disjI1 [OF c]] a b c show ?thesis
    by simp
qed

subsection \<open>Generations\<close>

lemma peopleMap_SomeD: "peopleMap ps i = Some p \<Longrightarrow> p \<in> set ps \<and> person_id p = i"
  unfolding peopleMap_def by (auto dest!: map_of_SomeD)

lemma finite_parentRefs: "finite (parentRefs (peopleMap ps))"
proof -
  have "parentRefs (peopleMap ps)
      \<subseteq> (\<lambda>p. (the (truthyId (fatherId p)), person_id p)) ` set ps
        \<union> (\<lambda>p. (the (truthyId (motherId p)), person_id p)) ` set ps"
    unfolding parentRefs_def by (auto dest!: peopleMap_SomeD simp: image_iff) force+
  then show ?thesis
    by (rule finite_subset) simp
qed

lemma parentChain_Suc_cases:
  assumes "parentChain P i (Suc n)"
  obtains p f where "P i = Some p" "truthyId (fatherId p) = Some f" "parentChain P f n"
  | p m where "P i = Some p" "truthyId (motherId p) = Some m" "parentChain P m n"
  using assms by (cases rule: parentChain.cases) auto

lemma longestChain_unknown: "P i = None \<Longrightarrow> longestChain P i 0"
  unfolding longestChain_def
  by (auto intro: parentChain.chainEnd elim: parentChain.cases)

lemma longestChain_max:
  assumes p: "P i = Some p"
    and f: "branch P (truthyId (fatherId p)) gF"
    and m: "branch P (truthyId (motherId p)) gM"
  shows "longestChain P i (max gF gM)"
  unfolding longestChain_def
proof (intro conjI allI impI)
  have cf: "parentChain P i gF"
    using f p unfolding branch_def longestChain_def
    by (auto intro: parentChain.chainEnd parentChain.chainFather)
  have cm: "parentChain P i gM"
    using m p unfolding branch_def longestChain_def
    by (auto intro: parentChain.chainEnd parentChain.chainMother)
  show "parentChain P i (max gF gM)"
    using cf cm by (simp add: max_def)
next
  fix n
  assume c: "parentChain P i n"
  show "n \<le> max gF gM"
  proof (cases n)
    case 0
    then show ?thesis by simp
  next
    case (Suc k)
    with c have "parentChain P i (Suc k)" by simp
    then show ?thesis
    proof (cases rule: parentChain_Suc_cases)
      case (1 p' f')
      with p f have "Suc k \<le> gF"
        unfolding branch_def longestChain_def by auto
      with Suc show ?thesis by simp
    next
      case (2 p' m')
      with p m have "Suc k \<le> gM"
        unfolding branch_def longestChain_def by auto
      with Suc show ?thesis by simp
    qed
  qed
qed


lemma parent_call:
  assumes IH: "\<And>j c. (j, i) \<in> parentRefs P \<Longrightarrow> soundCache P c \<Longrightarrow>
      \<exists>g c'. computeGeneration P c j = Some (Gen g, c') \<and> longestChain P j g \<and> soundCache P c'"
    and r: "r = None \<or> (\<exists>j. r = Some j \<and> (j, i) \<in> parentRefs P)"
    and c: "soundCache P c"
  shows "\<exists>g c'. (case r of
            None \<Rightarrow> Some (Gen 0, c)
          | Some f \<Rightarrow> Option.bind (computeGeneration P c f) (\<lambda>(g, cache). Some (plusOne g, cache)))
          = Some (Gen g, c') \<and> branch P r g \<and> soundCache P c'"
proof (cases r)
  case None
  with c show ?thesis by (simp add: branch_def)
next
  case (Some j)
  with r have "(j, i) \<in> parentRefs P" by simp
  from IH [OF this c] obtain g c' where
    "computeGeneration P c j = Some (Gen g, c')" "longestChain P j g" "soundCache P c'"
    by blast
  with Some show ?thesis
    by (auto simp: branch_def)
qed

lemma computeGeneration_sound:
  assumes wf: "wf (parentRefs P)"
    and refs: "\<forall>j i. (j, i) \<in> parentRefs P \<longrightarrow> j \<notin> set objectPrototypeKeys"
  shows "i \<notin> set objectPrototypeKeys \<Longrightarrow> soundCache P c \<Longrightarrow>
     \<exists>g c'. computeGeneration P c i = Some (Gen g, c') \<and> longestChain P i g \<and> soundCache P c'"
  using wf
proof (induction i arbitrary: c rule: wf_induct_rule)
  case (less i)
  have IH: "\<exists>g c'. computeGeneration P c j = Some (Gen g, c') \<and> longestChain P j g \<and> soundCache P c'"
    if "(j, i) \<in> parentRefs P" "soundCache P c" for j c
    using less.IH [OF that(1) _ that(2)] refs that(1) by blast
  show ?case
  proof (cases "c i")
    case (Some v)
    with less.prems(2) obtain g where "v = Gen g" "longestChain P i g"
      unfolding soundCache_def by blast
    with Some less.prems(2) show ?thesis
      by (subst computeGeneration.simps) (simp add: getProp_def)
  next
    case None
    then have gp: "getProp c i = Undefined"
      using less.prems(1) by (simp add: getProp_def)
    show ?thesis
    proof (cases "P i")
      case None
      then show ?thesis
        using gp less.prems(2) longestChain_unknown [of P i]
        by (subst computeGeneration.simps) simp
    next
      case (Some p)
      have rf: "truthyId (fatherId p) = None
          \<or> (\<exists>j. truthyId (fatherId p) = Some j \<and> (j, i) \<in> parentRefs P)"
        using Some by (cases "truthyId (fatherId p)") (auto simp: parentRefs_def)
      have rm: "truthyId (motherId p) = None
          \<or> (\<exists>j. truthyId (motherId p) = Some j \<and> (j, i) \<in> parentRefs P)"
        using Some by (cases "truthyId (motherId p)") (auto simp: parentRefs_def)
      from parent_call [of i P "truthyId (fatherId p)" c, OF IH rf less.prems(2)]
      obtain gF c1 where
        f: "(case truthyId (fatherId p) of
              None \<Rightarrow> Some (Gen 0, c)
            | Some f \<Rightarrow> Option.bind (computeGeneration P c f) (\<lambda>(g, cache). Some (plusOne g, cache)))
            = Some (Gen gF, c1)"
        and bf: "branch P (truthyId (fatherId p)) gF" and c1: "soundCache P c1"
        by blast
      from parent_call [of i P "truthyId (motherId p)" c1, OF IH rm c1]
      obtain gM c2 where
        m: "(case truthyId (motherId p) of
              None \<Rightarrow> Some (Gen 0, c1)
            | Some f \<Rightarrow> Option.bind (computeGeneration P c1 f) (\<lambda>(g, cache). Some (plusOne g, cache)))
            = Some (Gen gM, c2)"
        and bm: "branch P (truthyId (motherId p)) gM" and c2: "soundCache P c2"
        by blast
      have res: "computeGeneration P c i = Some (Gen (max gF gM), c2(i \<mapsto> Gen (max gF gM)))"
        by (subst computeGeneration.simps) (simp add: gp Some f m Let_def)
      have lc: "longestChain P i (max gF gM)"
        using Some bf bm by (rule longestChain_max)
      have "soundCache P (c2(i \<mapsto> Gen (max gF gM)))"
        using c2 lc less.prems(1) unfolding soundCache_def by auto
      with res lc show ?thesis by blast
    qed
  qed
qed


lemma parentRefs_orphan: "parentRefs (peopleMap [orphan]) = {(js ''P-999999'', js ''P-000001'')}"
  by (auto simp: parentRefs_def peopleMap_def orphan_def truthyId_def js_def split: if_splits)

lemma acyclic_orphan: "acyclic (parentRefs (peopleMap [orphan]))"
  unfolding parentRefs_orphan by (simp add: js_def) (simp add: acyclic_def)

text \<open>
  C9, as stated, fails: a reference that resolves to nobody still counts as a link. For
  the single person \<open>P-000001\<close> whose \<open>fatherId\<close> is \<open>P-999999\<close>, unknown to the
  collection, the reference graph is acyclic and \<open>computeGeneration\<close> returns 1, while
  there is no chain of one resolvable parent link from that person.
\<close>

theorem dangling_parent_counterexample:
  "acyclic (parentRefs (peopleMap [orphan]))
   \<and> map_option fst (computeGeneration (peopleMap [orphan]) Map.empty (js ''P-000001'')) = Some (Gen 1)
   \<and> peopleMap [orphan] (js ''P-999999'') = None
   \<and> \<not> resolvableChain (peopleMap [orphan]) (js ''P-000001'') 1"
proof -
  have g: "map_option fst (computeGeneration (peopleMap [orphan]) Map.empty (js ''P-000001'')) = Some (Gen 1)"
    by code_simp
  have n: "peopleMap [orphan] (js ''P-999999'') = None"
    by code_simp
  have "\<not> resolvableChain (peopleMap [orphan]) (js ''P-000001'') (Suc 0)"
  proof
    assume "resolvableChain (peopleMap [orphan]) (js ''P-000001'') (Suc 0)"
    then show False
      using n
      by (cases rule: resolvableChain.cases)
        (auto simp: peopleMap_def orphan_def truthyId_def js_def split: if_splits)
  qed
  with g n acyclic_orphan show ?thesis by simp
qed

text \<open>
  C9, amended. For every people collection whose \<open>fatherId\<close>/\<open>motherId\<close> reference graph
  is acyclic (and whose ids are not names of members of \<open>Object.prototype\<close>),
  \<open>computeGeneration(id)\<close> returns for every id, from the empty cache and from any cache
  earlier calls have left, and its result is the length of the longest chain of
  non-empty parent references from that id, in which the last reference may name an id
  the collection does not have: 0 when the id is unknown or the person has no parent
  reference.
\<close>

theorem computeGeneration_longest_chain:
  assumes "acyclic (parentRefs (peopleMap ps))"
    and "\<forall>k \<in> set objectPrototypeKeys.
           k \<noteq> i \<and> (\<forall>p \<in> set ps. fatherId p \<noteq> Some k \<and> motherId p \<noteq> Some k)"
    and "soundCache (peopleMap ps) cache"
  shows "\<exists>g cache'. computeGeneration (peopleMap ps) cache i = Some (Gen g, cache')
           \<and> parentChain (peopleMap ps) i g
           \<and> (\<forall>n. parentChain (peopleMap ps) i n \<longrightarrow> n \<le> g)
           \<and> soundCache (peopleMap ps) cache'"
proof -
  have wf: "wf (parentRefs (peopleMap ps))"
    using finite_parentRefs assms(1) by (rule finite_acyclic_wf)
  have refs: "\<forall>j i. (j, i) \<in> parentRefs (peopleMap ps) \<longrightarrow> j \<notin> set objectPrototypeKeys"
  proof (intro allI impI)
    fix j i'
    assume "(j, i') \<in> parentRefs (peopleMap ps)"
    then obtain p where p: "p \<in> set ps" and "fatherId p = Some j \<or> motherId p = Some j"
      unfolding parentRefs_def
      by (auto dest!: peopleMap_SomeD simp: truthyId_def split: option.splits if_splits)
    with assms(2) show "j \<notin> set objectPrototypeKeys" by blast
  qed
  have i: "i \<notin> set objectPrototypeKeys"
    using assms(2) by blast
  from computeGeneration_sound [OF wf refs i assms(3)] show ?thesis
    unfolding longestChain_def by blast
qed

theorem computeGeneration_longest_chain_witness:
  "\<exists>g cache'. computeGeneration (peopleMap [orphan]) Map.empty (js ''P-000001'') = Some (Gen g, cache')
           \<and> parentChain (peopleMap [orphan]) (js ''P-000001'') g"
proof -
  have 2: "\<forall>k \<in> set objectPrototypeKeys.
           k \<noteq> js ''P-000001'' \<and> (\<forall>p \<in> set [orphan]. fatherId p \<noteq> Some k \<and> motherId p \<noteq> Some k)"
    by code_simp
  have 3: "soundCache (peopleMap [orphan]) Map.empty"
    by (simp add: soundCache_def)
  from computeGeneration_longest_chain [OF acyclic_orphan 2 3] show ?thesis
    by blast
qed

text \<open>
  Where every parent reference of the collection resolves, as after the ingestion's
  validation, the two kinds of chain are the same, and the result above is the length of
  the longest chain of resolvable parent links.
\<close>

lemma parentChain_resolvable:
  assumes "\<forall>i p r. P i = Some p \<longrightarrow>
      truthyId (fatherId p) = Some r \<or> truthyId (motherId p) = Some r \<longrightarrow> P r \<noteq> None"
  shows "parentChain P i n \<longleftrightarrow> resolvableChain P i n"
proof
  assume "parentChain P i n"
  then show "resolvableChain P i n"
  proof (induction rule: parentChain.induct)
    case (chainEnd i)
    show ?case by (rule resolvableChain.resolvableEnd)
  next
    case (chainFather i p f n)
    with assms obtain q where "P f = Some q" by blast
    with chainFather show ?case
      by (blast intro: resolvableChain.resolvableFather)
  next
    case (chainMother i p m n)
    with assms obtain q where "P m = Some q" by blast
    with chainMother show ?case
      by (blast intro: resolvableChain.resolvableMother)
  qed
next
  assume "resolvableChain P i n"
  then show "parentChain P i n"
    by (induction rule: resolvableChain.induct) (blast intro: parentChain.intros)+
qed

text \<open>
  The proviso on the ids: for the name of a member of \<open>Object.prototype\<close> the cache read
  answers with that member, and the result is not a number.
\<close>

lemma computeGeneration_prototype_member:
  "map_option fst (computeGeneration (peopleMap []) Map.empty (js ''constructor'')) = Some Junk"
  by code_simp

subsection \<open>Admin edits\<close>

lemma findIndex_Some: "findIndex P xs = Some i \<Longrightarrow> i < length xs \<and> P (xs ! i)"
  by (induction xs arbitrary: i) (auto split: if_splits)

lemma person_id_unlink [simp]: "person_id (unlink pid p) = person_id p"
  by (simp add: unlink_def)

lemma personRefs_unlink: "personRefs (unlink pid p) = filter (\<lambda>r. r \<noteq> pid) (personRefs p)"
  by (cases "fatherId p"; cases "motherId p"; cases "spouseIds p")
    (auto simp: personRefs_def unlink_def)

lemma ids_after_delete:
  "person_id ` set (map (unlink pid) (filter (\<lambda>p. person_id p \<noteq> pid) ps))
     = person_id ` set ps - {pid}"
  by (auto simp: image_iff)

lemma peopleValid_delete:
  assumes "peopleValid ps"
  shows "peopleValid (map (unlink pid) (filter (\<lambda>p. person_id p \<noteq> pid) ps))"
  using assms
  unfolding peopleValid_def ids_after_delete
  by (auto simp: list_all_iff personRefs_unlink)

lemma spousesValid_delete:
  assumes "spousesValid ps ms"
  shows "spousesValid (map (unlink pid) (filter (\<lambda>p. person_id p \<noteq> pid) ps))
           (filter (\<lambda>m. spouse1Id m \<noteq> pid \<and> spouse2Id m \<noteq> pid) ms)"
  using assms
  unfolding spousesValid_def ids_after_delete
  by (auto simp: list_all_iff)

lemma spread_keeps:
  assumes "upd_id u = None" "upd_fatherId u = None" "upd_motherId u = None" "upd_spouseIds u = None"
  shows "person_id (spread p u) = person_id p" and "personRefs (spread p u) = personRefs p"
  using assms by (simp_all add: spread_def personRefs_def)

lemma update_ids:
  assumes "i < length ps" "person_id q = person_id (ps ! i)"
  shows "person_id ` set (ps[i := q]) = person_id ` set ps"
proof -
  have "map person_id (ps[i := q]) = map person_id ps"
    using assms by (simp add: map_update list_update_same_conv)
  then have "set (map person_id (ps[i := q])) = set (map person_id ps)"
    by (rule arg_cong)
  then show ?thesis by simp
qed

lemma peopleValid_update:
  assumes v: "peopleValid ps" and i: "i < length ps"
    and q: "person_id q = person_id (ps ! i)" "personRefs q = personRefs (ps ! i)"
  shows "peopleValid (ps[i := q])"
proof -
  have "list_all (\<lambda>r. r \<in> person_id ` set ps \<and> r \<noteq> person_id p) (personRefs p)"
    if "p \<in> set (ps[i := q])" for p
  proof (cases "p = q")
    case True
    have "ps ! i \<in> set ps" using i by simp
    with v have "list_all (\<lambda>r. r \<in> person_id ` set ps \<and> r \<noteq> person_id (ps ! i)) (personRefs (ps ! i))"
      unfolding peopleValid_def by (simp add: list_all_iff)
    with True q show ?thesis by simp
  next
    case False
    with that have "p \<in> set ps"
      using set_update_subset_insert [of ps i q] by auto
    with v show ?thesis
      unfolding peopleValid_def by (simp add: list_all_iff)
  qed
  then show ?thesis
    unfolding peopleValid_def update_ids [OF i q(1)] by (simp add: list_all_iff)
qed


text \<open>
  C4, as stated, fails: \<open>updatePerson\<close> stores the fields it is given and validates
  nothing. On a family whose relationships are valid, the edit that sets the child's
  \<open>fatherId\<close> to the child's own id succeeds and leaves a self-reference.
\<close>

theorem updatePerson_self_reference_counterexample:
  "relationshipsValid familyExample
   \<and> fst (updatePerson familyExample (js ''P-000011'') selfFather)
   \<and> fatherId (people (snd (updatePerson familyExample (js ''P-000011'') selfFather)) ! 1)
       = Some (person_id (people (snd (updatePerson familyExample (js ''P-000011'') selfFather)) ! 1))
   \<and> \<not> relationshipsValid (snd (updatePerson familyExample (js ''P-000011'') selfFather))"
  by code_simp

text \<open>
  C4, amended. On data whose relationship invariants hold: after a confirmed
  \<open>deletePerson\<close> the deleted person is gone, no remaining person's \<open>fatherId\<close>,
  \<open>motherId\<close> or \<open>spouseIds\<close> entry and no remaining marriage's spouse field names them,
  every remaining such reference still names a person of the final set, and no
  self-reference remains; a declined \<open>deletePerson\<close> changes nothing; \<open>updatePerson\<close>
  re-validates nothing and keeps the invariants when the edit leaves \<open>id\<close>, \<open>fatherId\<close>,
  \<open>motherId\<close> and \<open>spouseIds\<close> as they are.
\<close>

theorem admin_operations_keep_references:
  assumes "relationshipsValid d"
    and "upd_id u = None" "upd_fatherId u = None" "upd_motherId u = None" "upd_spouseIds u = None"
  shows "(let d' = snd (deletePerson True d deleted)
          in peopleValid (people d') \<and> spousesValid (people d') (marriages d')
             \<and> deleted \<notin> person_id ` set (people d')
             \<and> list_all (\<lambda>p. deleted \<notin> set (personRefs p)) (people d')
             \<and> list_all (\<lambda>m. spouse1Id m \<noteq> deleted \<and> spouse2Id m \<noteq> deleted) (marriages d'))
       \<and> relationshipsValid (snd (updatePerson d edited u))
       \<and> deletePerson False d deleted = (False, d)"
proof (intro conjI)
  from assms(1) have pv: "peopleValid (people d)" and sv: "spousesValid (people d) (marriages d)"
    and cv: "childrenValid (people d) (marriages d)"
    by (simp_all add: relationshipsValid_def)
  show "let d' = snd (deletePerson True d deleted)
        in peopleValid (people d') \<and> spousesValid (people d') (marriages d')
           \<and> deleted \<notin> person_id ` set (people d')
           \<and> list_all (\<lambda>p. deleted \<notin> set (personRefs p)) (people d')
           \<and> list_all (\<lambda>m. spouse1Id m \<noteq> deleted \<and> spouse2Id m \<noteq> deleted) (marriages d')"
  proof -
    let ?ps = "map (unlink deleted) (filter (\<lambda>p. person_id p \<noteq> deleted) (people d))"
    let ?ms = "filter (\<lambda>m. spouse1Id m \<noteq> deleted \<and> spouse2Id m \<noteq> deleted) (marriages d)"
    have d': "snd (deletePerson True d deleted) = \<lparr>people = ?ps, marriages = ?ms\<rparr>"
      by (simp add: deletePerson_def Let_def)
    have 1: "peopleValid ?ps" using pv by (rule peopleValid_delete)
    have 2: "spousesValid ?ps ?ms" using sv by (rule spousesValid_delete)
    have 3: "deleted \<notin> person_id ` set ?ps"
      unfolding ids_after_delete by simp
    have 4: "list_all (\<lambda>p. deleted \<notin> set (personRefs p)) ?ps"
      by (simp add: list_all_iff personRefs_unlink)
    have 5: "list_all (\<lambda>m. spouse1Id m \<noteq> deleted \<and> spouse2Id m \<noteq> deleted) ?ms"
      by (simp add: list_all_iff)
    from 1 2 3 4 5 show ?thesis
      unfolding d' Let_def by simp
  qed
  show "relationshipsValid (snd (updatePerson d edited u))"
  proof (cases "findIndex (\<lambda>p. person_id p = edited) (people d)")
    case None
    with assms(1) show ?thesis by (simp add: updatePerson_def)
  next
    case (Some i)
    then have i: "i < length (people d)" by (simp add: findIndex_Some)
    let ?q = "spread (people d ! i) u"
    have q: "person_id ?q = person_id (people d ! i)" "personRefs ?q = personRefs (people d ! i)"
      using spread_keeps [OF assms(2-5)] by simp_all
    have "peopleValid ((people d)[i := ?q])"
      using pv i q by (rule peopleValid_update)
    moreover have "spousesValid ((people d)[i := ?q]) (marriages d)"
      using sv unfolding spousesValid_def update_ids [OF i q(1)] .
    moreover have "childrenValid ((people d)[i := ?q]) (marriages d)"
      using cv unfolding childrenValid_def update_ids [OF i q(1)] .
    ultimately show ?thesis
      using Some by (simp add: updatePerson_def relationshipsValid_def)
  qed
  show "deletePerson False d deleted = (False, d)"
    by (simp add: deletePerson_def)
qed

theorem admin_operations_keep_references_witness:
  "(let d' = snd (deletePerson True familyExample (js ''P-000010''))
    in peopleValid (people d') \<and> spousesValid (people d') (marriages d')
       \<and> js ''P-000010'' \<notin> person_id ` set (people d'))
   \<and> relationshipsValid (snd (updatePerson familyExample (js ''P-000011'') renameOnly))"
proof -
  have v: "relationshipsValid familyExample"
    by code_simp
  have u: "upd_id renameOnly = None" "upd_fatherId renameOnly = None" "upd_motherId renameOnly = None"
    "upd_spouseIds renameOnly = None"
    by (simp_all add: renameOnly_def)
  from admin_operations_keep_references [OF v u, of "js ''P-000010''" "js ''P-000011''"]
  show ?thesis
    by (simp add: Let_def)
qed

text \<open>
  The children lists of the marriages are outside what \<open>deletePerson\<close> cleans: deleting
  the child of the example family leaves the child's id in the marriage record.
\<close>

lemma deletePerson_leaves_child_entry:
  "children (marriages (snd (deletePerson True familyExample (js ''P-000011''))) ! 0)
     = [js ''P-000011'']
   \<and> js ''P-000011'' \<notin> person_id ` set (people (snd (deletePerson True familyExample (js ''P-000011''))))"
  by code_simp

end
